theory Spec2Isabelle
  imports Main
begin

section \<open>Go library functions called by the scheduler\<close>

text \<open>
  \<^verbatim>\<open>strings.Split(s, sep)\<close> for a one-byte separator, following the library's loop:
  find the first index of the separator, emit the bytes before it, continue with the
  bytes after it; the remainder without a separator is the last segment. The result is
  never empty (\<^verbatim>\<open>Split("", "-")\<close> is one empty segment).
\<close>

function Split :: "string \<Rightarrow> char \<Rightarrow> string list" where
  "Split s sep =
     (if sep \<in> set s
      then takeWhile (\<lambda>c. c \<noteq> sep) s # Split (tl (dropWhile (\<lambda>c. c \<noteq> sep) s)) sep
      else [s])"
  by pat_completeness auto
termination
proof (relation "measure (\<lambda>(s, sep). length s)")
  show "wf (measure (\<lambda>(s, sep). length s))"
    by simp
next
  fix s :: string and sep :: char
  assume "sep \<in> set s"
  then have "dropWhile (\<lambda>c. c \<noteq> sep) s \<noteq> []"
    by (auto simp: dropWhile_eq_Nil_conv)
  moreover have "length (dropWhile (\<lambda>c. c \<noteq> sep) s) \<le> length s"
    by (rule length_dropWhile_le)
  ultimately have "length (tl (dropWhile (\<lambda>c. c \<noteq> sep) s)) < length s"
    by (cases "dropWhile (\<lambda>c. c \<noteq> sep) s") auto
  then show "((tl (dropWhile (\<lambda>c. c \<noteq> sep) s), sep), (s, sep)) \<in> measure (\<lambda>(s, sep). length s)"
    by simp
qed

declare Split.simps [simp del]

text \<open>
  \<^verbatim>\<open>strconv.Atoi\<close>: an optional sign (\<^verbatim>\<open>+\<close> or \<^verbatim>\<open>-\<close>), then one or more decimal
  digits, nothing else; the value must fit the machine \<^verbatim>\<open>int\<close> (64 bits here). The
  scheduler only tests \<^verbatim>\<open>err != nil\<close>, so both kinds of failure (syntax, range) are the
  one value \<open>None\<close>.
\<close>

definition intSize :: nat where
  "intSize = 64"

definition isDigit :: "char \<Rightarrow> bool" where
  "isDigit c = (48 \<le> (of_char c :: nat) \<and> (of_char c :: nat) \<le> 57)"

definition digitsValue :: "string \<Rightarrow> int" where
  "digitsValue s = foldl (\<lambda>n ch. n * 10 + (int (of_char ch) - 48)) 0 s"

definition Atoi :: "string \<Rightarrow> int option" where
  "Atoi s0 =
     (let neg = (s0 \<noteq> [] \<and> hd s0 = CHR ''-'');
          s = (if s0 \<noteq> [] \<and> (hd s0 = CHR ''-'' \<or> hd s0 = CHR ''+'') then tl s0 else s0)
      in if s = [] then None
         else if \<not> list_all isDigit s then None
         else if neg then (if digitsValue s > 2 ^ (intSize - 1) then None
                           else Some (- digitsValue s))
         else (if digitsValue s \<ge> 2 ^ (intSize - 1) then None
               else Some (digitsValue s)))"

section \<open>Parsing a boundary: ParseMonthDay\<close>

text \<open>
  The three \<^verbatim>\<open>fmt.Errorf\<close> returns of \<^verbatim>\<open>ParseMonthDay\<close>, each with the argument it
  formats.
\<close>

datatype ParseError =
    InvalidFormat string
  | InvalidMonth string
  | InvalidDay string

definition ParseMonthDay :: "string \<Rightarrow> ParseError + (int \<times> int)" where
  "ParseMonthDay s =
     (let parts = Split s (CHR ''-'') in
      if length parts \<noteq> 2 then Inl (InvalidFormat s)
      else (case Atoi (parts ! 0) of
              None \<Rightarrow> Inl (InvalidMonth (parts ! 0))
            | Some month \<Rightarrow>
                if month < 1 \<or> month > 12 then Inl (InvalidMonth (parts ! 0))
                else (case Atoi (parts ! 1) of
                        None \<Rightarrow> Inl (InvalidDay (parts ! 1))
                      | Some day \<Rightarrow>
                          if day < 1 \<or> day > 31 then Inl (InvalidDay (parts ! 1))
                          else Inr (month, day))))"

text \<open>
  The message of a \<^verbatim>\<open>ParseMonthDay\<close> error. \<open>quote\<close> stands for the \<^verbatim>\<open>%q\<close> verb of
  \<^verbatim>\<open>fmt\<close> (Go's quoted-string rendering), which is taken as a parameter.
\<close>

fun ParseError_message :: "(string \<Rightarrow> string) \<Rightarrow> ParseError \<Rightarrow> string" where
  "ParseError_message quote (InvalidFormat s) = ''invalid format: expected MM-DD, got '' @ quote s"
| "ParseError_message quote (InvalidMonth p) = ''invalid month: '' @ p"
| "ParseError_message quote (InvalidDay p) = ''invalid day: '' @ p"

section \<open>The day-of-year ordinal: monthDayToDOY, isYearWrap\<close>

definition daysInMonth :: "int list" where
  "daysInMonth = [0, 31, 29, 31, 30, 31, 30, 31, 31, 30, 31, 30, 31]"

text \<open>
  The loop \<^verbatim>\<open>for m := 1; m < month; m++ { doy += daysInMonth[m] }\<close>. Indexing the
  13-element slice out of range panics in Go: the result \<open>None\<close>. Go's \<^verbatim>\<open>int\<close> is a
  machine integer; the loop adds at most 366, and every day the theorems below pass in
  lies in 1..31, so no sum comes near its bounds and \<open>int\<close> is exact.
\<close>

function monthDayToDOY_loop :: "int \<Rightarrow> int \<Rightarrow> int \<Rightarrow> int option" where
  "monthDayToDOY_loop m month doy =
     (if m < month
      then (if 0 \<le> m \<and> m < int (length daysInMonth)
            then monthDayToDOY_loop (m + 1) month (doy + daysInMonth ! nat m)
            else None)
      else Some doy)"
  by pat_completeness auto
termination
  by (relation "measure (\<lambda>(m, month, doy). nat (month - m))") auto

declare monthDayToDOY_loop.simps [simp del]

definition monthDayToDOY :: "int \<Rightarrow> int \<Rightarrow> int option" where
  "monthDayToDOY month day =
     (case monthDayToDOY_loop 1 month 0 of
        None \<Rightarrow> None
      | Some doy \<Rightarrow> Some (doy + day))"

definition isYearWrap :: "int \<Rightarrow> int \<Rightarrow> int \<Rightarrow> int \<Rightarrow> bool option" where
  "isYearWrap startMonth startDay endMonth endDay =
     (case monthDayToDOY startMonth startDay of
        None \<Rightarrow> None
      | Some startDOY \<Rightarrow>
          (case monthDayToDOY endMonth endDay of
             None \<Rightarrow> None
           | Some endDOY \<Rightarrow> Some (endDOY < startDOY)))"

section \<open>Configuration, ranges and the scheduler\<close>

record ScheduleEntry =
  Name :: string
  Album :: string
  Start :: string
  End :: string

record Config =
  KioskURL :: string
  DefaultAlbum :: string
  Port :: int
  LogLevel :: string
  PassthroughParams :: "string list"
  Schedule :: "ScheduleEntry list"
  MetricsUsername :: string
  MetricsPassword :: string

record dateRange =
  name :: string
  album :: string
  startMonth :: int
  startDay :: int
  endMonth :: int
  endDay :: int
  wrapsYear :: bool

record Scheduler =
  defaultAlbum :: string
  ranges :: "dateRange list"

text \<open>
  The two error returns of \<^verbatim>\<open>New\<close>: the entry's name and the wrapped
  \<^verbatim>\<open>ParseMonthDay\<close> error.
\<close>

datatype NewError =
    InvalidStartDate string ParseError
  | InvalidEndDate string ParseError

fun NewError_message :: "(string \<Rightarrow> string) \<Rightarrow> NewError \<Rightarrow> string" where
  "NewError_message quote (InvalidStartDate n err) =
     ''invalid start date for '' @ quote n @ '': '' @ ParseError_message quote err"
| "NewError_message quote (InvalidEndDate n err) =
     ''invalid end date for '' @ quote n @ '': '' @ ParseError_message quote err"

text \<open>
  The loop of \<^verbatim>\<open>New\<close> over \<^verbatim>\<open>cfg.Schedule\<close>, with the scheduler under construction
  as the state. The result is \<open>None\<close> for a run-time panic, \<open>Some (Inl e)\<close> for
  \<^verbatim>\<open>(nil, err)\<close> and \<open>Some (Inr s)\<close> for \<^verbatim>\<open>(s, nil)\<close>.
  The configuration is passed as a value: a nil \<^verbatim>\<open>cfg\<close> is outside the model.
\<close>

fun New_loop :: "Scheduler \<Rightarrow> ScheduleEntry list \<Rightarrow> (NewError + Scheduler) option" where
  "New_loop s [] = Some (Inr s)"
| "New_loop s (entry # rest) =
     (case ParseMonthDay (Start entry) of
        Inl err \<Rightarrow> Some (Inl (InvalidStartDate (Name entry) err))
      | Inr (startMonth', startDay') \<Rightarrow>
          (case ParseMonthDay (End entry) of
             Inl err \<Rightarrow> Some (Inl (InvalidEndDate (Name entry) err))
           | Inr (endMonth', endDay') \<Rightarrow>
               (case isYearWrap startMonth' startDay' endMonth' endDay' of
                  None \<Rightarrow> None
                | Some w \<Rightarrow>
                    New_loop
                      (s\<lparr>ranges := ranges s @
                          [\<lparr>name = Name entry, album = Album entry,
                            startMonth = startMonth', startDay = startDay',
                            endMonth = endMonth', endDay = endDay',
                            wrapsYear = w\<rparr>]\<rparr>)
                      rest)))"

definition New :: "Config \<Rightarrow> (NewError + Scheduler) option" where
  "New cfg = New_loop \<lparr>defaultAlbum = DefaultAlbum cfg, ranges = []\<rparr> (Schedule cfg)"

section \<open>Lookup: dateInRange, GetAlbumForDate, GetScheduleNameForDate\<close>

text \<open>
  \<^verbatim>\<open>dateInRange\<close> recomputes both boundary ordinals from the stored months and days at
  every call; its receiver is not used and is left out.
\<close>

definition dateInRange :: "int \<Rightarrow> dateRange \<Rightarrow> bool option" where
  "dateInRange currentDOY r =
     (case monthDayToDOY (startMonth r) (startDay r) of
        None \<Rightarrow> None
      | Some startDOY \<Rightarrow>
          (case monthDayToDOY (endMonth r) (endDay r) of
             None \<Rightarrow> None
           | Some endDOY \<Rightarrow>
               Some (if wrapsYear r
                     then currentDOY \<ge> startDOY \<or> currentDOY \<le> endDOY
                     else currentDOY \<ge> startDOY \<and> currentDOY \<le> endDOY)))"

text \<open>
  Of a \<^verbatim>\<open>time.Time\<close> the scheduler reads \<^verbatim>\<open>t.Month()\<close> and \<^verbatim>\<open>t.Day()\<close> only.
\<close>

record Time =
  Month :: int
  Day :: int

definition validTime :: "Time \<Rightarrow> bool" where
  "validTime t = (1 \<le> Month t \<and> Month t \<le> 12 \<and> 1 \<le> Day t \<and> Day t \<le> 31)"

fun GetAlbumForDate_loop :: "string \<Rightarrow> int \<Rightarrow> dateRange list \<Rightarrow> string option" where
  "GetAlbumForDate_loop dflt currentDOY [] = Some dflt"
| "GetAlbumForDate_loop dflt currentDOY (r # rs) =
     (case dateInRange currentDOY r of
        None \<Rightarrow> None
      | Some b \<Rightarrow> if b then Some (album r) else GetAlbumForDate_loop dflt currentDOY rs)"

definition GetAlbumForDate :: "Scheduler \<Rightarrow> Time \<Rightarrow> string option" where
  "GetAlbumForDate s t =
     (case monthDayToDOY (Month t) (Day t) of
        None \<Rightarrow> None
      | Some currentDOY \<Rightarrow> GetAlbumForDate_loop (defaultAlbum s) currentDOY (ranges s))"

fun GetScheduleNameForDate_loop :: "int \<Rightarrow> dateRange list \<Rightarrow> string option" where
  "GetScheduleNameForDate_loop currentDOY [] = Some ''default''"
| "GetScheduleNameForDate_loop currentDOY (r # rs) =
     (case dateInRange currentDOY r of
        None \<Rightarrow> None
      | Some b \<Rightarrow> if b then Some (name r) else GetScheduleNameForDate_loop currentDOY rs)"

definition GetScheduleNameForDate :: "Scheduler \<Rightarrow> Time \<Rightarrow> string option" where
  "GetScheduleNameForDate s t =
     (case monthDayToDOY (Month t) (Day t) of
        None \<Rightarrow> None
      | Some currentDOY \<Rightarrow> GetScheduleNameForDate_loop currentDOY (ranges s))"

section \<open>Vocabulary of the statements\<close>

text \<open>A range matches a date: the test both lookup loops make.\<close>

definition matchesDate :: "Time \<Rightarrow> dateRange \<Rightarrow> bool" where
  "matchesDate t r =
     (case monthDayToDOY (Month t) (Day t) of
        None \<Rightarrow> False
      | Some currentDOY \<Rightarrow> dateInRange currentDOY r = Some True)"

text \<open>
  A decimal numeral and its value: one or more of the characters 0 to 9, read from the
  left. A numeric segment is a decimal numeral after at most one plus sign.
\<close>

definition decimal :: "string \<Rightarrow> int \<Rightarrow> bool" where
  "decimal ds v =
     (ds \<noteq> [] \<and> list_all (\<lambda>c. c \<in> set ''0123456789'') ds \<and>
      v = foldl (\<lambda>n c. n * 10 + (int (of_char c) - 48)) 0 ds)"

definition numericSegment :: "string \<Rightarrow> int \<Rightarrow> bool" where
  "numericSegment a k =
     (decimal a k \<or> (a \<noteq> [] \<and> hd a = CHR ''+'' \<and> decimal (tl a) k))"

text \<open>Both boundaries of an entry are accepted by \<^verbatim>\<open>ParseMonthDay\<close>.\<close>

definition entryParses :: "ScheduleEntry \<Rightarrow> bool" where
  "entryParses e = (\<not> isl (ParseMonthDay (Start e)) \<and> \<not> isl (ParseMonthDay (End e)))"

text \<open>
  What \<^verbatim>\<open>New\<close> establishes for every range it appends: the four numbers passed the
  bounds of \<^verbatim>\<open>ParseMonthDay\<close>, and the flag is the value of \<^verbatim>\<open>isYearWrap\<close> on them.
\<close>

definition compiledRange :: "dateRange \<Rightarrow> bool" where
  "compiledRange r =
     (1 \<le> startMonth r \<and> startMonth r \<le> 12 \<and> 1 \<le> startDay r \<and> startDay r \<le> 31 \<and>
      1 \<le> endMonth r \<and> endMonth r \<le> 12 \<and> 1 \<le> endDay r \<and> endDay r \<le> 31 \<and>
      isYearWrap (startMonth r) (startDay r) (endMonth r) (endDay r) = Some (wrapsYear r))"

section \<open>The specification's compile-once data model\<close>

text \<open>
  These definitions follow the words of the specification, not the code: the ordinal
  as a sum over the month-length table, and a compiled range that stores both ordinals
  and the wrap flag, computed once from two (month, day) pairs.
\<close>

definition spec_ToOrdinal :: "int \<Rightarrow> int \<Rightarrow> int" where
  "spec_ToOrdinal month day =
     sum_list (take (nat (month - 1)) [31, 29, 31, 30, 31, 30, 31, 31, 30, 31, 30, 31]) + day"

record spec_CompiledRange =
  spec_name :: string
  spec_value :: string
  spec_startDOY :: int
  spec_endDOY :: int
  spec_wrapsYear :: bool

definition spec_compile :: "string \<Rightarrow> string \<Rightarrow> int \<times> int \<Rightarrow> int \<times> int \<Rightarrow> spec_CompiledRange" where
  "spec_compile n v start end' =
     \<lparr>spec_name = n, spec_value = v,
      spec_startDOY = spec_ToOrdinal (fst start) (snd start),
      spec_endDOY = spec_ToOrdinal (fst end') (snd end'),
      spec_wrapsYear = (spec_ToOrdinal (fst end') (snd end') < spec_ToOrdinal (fst start) (snd start))\<rparr>"

definition spec_matches :: "int \<Rightarrow> spec_CompiledRange \<Rightarrow> bool" where
  "spec_matches currentDOY r =
     (if spec_wrapsYear r
      then currentDOY \<ge> spec_startDOY r \<or> currentDOY \<le> spec_endDOY r
      else currentDOY \<ge> spec_startDOY r \<and> currentDOY \<le> spec_endDOY r)"

section \<open>Concrete configurations\<close>

text \<open>
  The configuration literal of the scheduler's tests,
  \<^verbatim>\<open>&config.Config{DefaultAlbum: d, Schedule: es}\<close>: every other field has Go's zero
  value.
\<close>

definition testConfig :: "string \<Rightarrow> ScheduleEntry list \<Rightarrow> Config" where
  "testConfig d es =
     \<lparr>KioskURL = [], DefaultAlbum = d, Port = 0, LogLevel = [], PassthroughParams = [],
      Schedule = es, MetricsUsername = [], MetricsPassword = []\<rparr>"

text \<open>The configurations of four tests of the scheduler.\<close>

definition cfg_SimpleRange :: Config where
  "cfg_SimpleRange = testConfig ''default-album''
     [\<lparr>Name = ''summer'', Album = ''summer-album'', Start = ''06-21'', End = ''09-21''\<rparr>]"

definition cfg_YearWrap :: Config where
  "cfg_YearWrap = testConfig ''default-album''
     [\<lparr>Name = ''christmas'', Album = ''christmas-album'', Start = ''11-15'', End = ''01-01''\<rparr>]"

definition cfg_FirstMatchWins :: Config where
  "cfg_FirstMatchWins = testConfig ''default-album''
     [\<lparr>Name = ''special'', Album = ''special-album'', Start = ''12-20'', End = ''12-26''\<rparr>,
      \<lparr>Name = ''christmas'', Album = ''christmas-album'', Start = ''11-15'', End = ''01-01''\<rparr>]"

definition cfg_EmptySchedule :: Config where
  "cfg_EmptySchedule = testConfig ''default-album'' []"

text \<open>Two further inputs: a range of one day, and a schedule whose second entry has a bad end.\<close>

definition cfg_SingleDay :: Config where
  "cfg_SingleDay = testConfig ''default-album''
     [\<lparr>Name = ''birthday'', Album = ''birthday-album'', Start = ''07-04'', End = ''07-04''\<rparr>]"

definition cfg_BadEnd :: Config where
  "cfg_BadEnd = testConfig ''default-album''
     [\<lparr>Name = ''summer'', Album = ''summer-album'', Start = ''06-21'', End = ''09-21''\<rparr>,
      \<lparr>Name = ''broken'', Album = ''broken-album'', Start = ''11-15'', End = ''01-32''\<rparr>,
      \<lparr>Name = ''later'', Album = ''later-album'', Start = ''2024-11-15'', End = ''12-01''\<rparr>]"

section \<open>The ordinal on valid months\<close>

lemma monthDayToDOY_loop_step:
  "m < month \<Longrightarrow> 0 \<le> m \<Longrightarrow> m < 13 \<Longrightarrow>
   monthDayToDOY_loop m month doy = monthDayToDOY_loop (m + 1) month (doy + daysInMonth ! nat m)"
  by (subst monthDayToDOY_loop.simps) (simp add: daysInMonth_def)

lemma monthDayToDOY_loop_done:
  "\<not> m < month \<Longrightarrow> monthDayToDOY_loop m month doy = Some doy"
  by (subst monthDayToDOY_loop.simps) simp

lemma monthDayToDOY_loop_sum:
  "1 \<le> m \<Longrightarrow> m \<le> month \<Longrightarrow> month \<le> 13 \<Longrightarrow>
   monthDayToDOY_loop m month doy =
     Some (doy + sum_list (take (nat (month - m)) (drop (nat m) daysInMonth)))"
proof (induction m month doy rule: monthDayToDOY_loop.induct)
  case (1 m month doy)
  show ?case
  proof (cases "m < month")
    case True
    then have step: "monthDayToDOY_loop m month doy =
        monthDayToDOY_loop (m + 1) month (doy + daysInMonth ! nat m)"
      using 1 by (intro monthDayToDOY_loop_step) auto
    have len: "nat m < length daysInMonth"
      using True 1 by (simp add: daysInMonth_def)
    have ih: "monthDayToDOY_loop (m + 1) month (doy + daysInMonth ! nat m) =
        Some (doy + daysInMonth ! nat m +
              sum_list (take (nat (month - (m + 1))) (drop (nat (m + 1)) daysInMonth)))"
      using 1 True by (intro "1.IH") (auto simp: daysInMonth_def)
    have "drop (nat m) daysInMonth = daysInMonth ! nat m # drop (Suc (nat m)) daysInMonth"
      using len by (simp add: Cons_nth_drop_Suc)
    moreover have "nat (month - m) = Suc (nat (month - (m + 1)))"
      using True by simp
    moreover have "nat (m + 1) = Suc (nat m)"
      using 1 by simp
    ultimately show ?thesis
      using step ih by simp
  next
    case False
    then show ?thesis
      using 1 by (simp add: monthDayToDOY_loop_done)
  qed
qed

lemma monthDayToDOY_valid:
  assumes "1 \<le> month" and "month \<le> 13"
  shows "monthDayToDOY month day =
           Some (sum_list (take (nat (month - 1)) (tl daysInMonth)) + day)"
proof -
  have "monthDayToDOY_loop 1 month 0 =
          Some (0 + sum_list (take (nat (month - 1)) (drop (nat 1) daysInMonth)))"
    using assms by (intro monthDayToDOY_loop_sum) auto
  then show ?thesis
    by (simp add: monthDayToDOY_def drop_Suc)
qed

lemma month_cases:
  assumes "1 \<le> (month :: int)" and "month \<le> 12"
  shows "month \<in> {1, 2, 3, 4, 5, 6, 7, 8, 9, 10, 11, 12}"
  using assms by simp arith

lemma offset_bound:
  assumes "1 \<le> (month :: int)" and "month \<le> 12"
  shows "0 \<le> sum_list (take (nat (month - 1)) (tl daysInMonth)) \<and>
         sum_list (take (nat (month - 1)) (tl daysInMonth)) \<le> 335"
  using month_cases [OF assms] by (auto simp: daysInMonth_def)

text \<open>
  C3. For a month in 1..12 and a day in 1..31, \<^verbatim>\<open>monthDayToDOY\<close> returns (without
  panic) the sum of the month lengths 31, 29, 31, 30, 31, 30, 31, 31, 30, 31, 30, 31 over
  the months before the given one, plus the day; February counts 29 days; the result
  lies between 1 and 366.
\<close>

theorem monthDayToDOY_table_sum:
  assumes "1 \<le> month" and "month \<le> 12" and "1 \<le> day" and "day \<le> 31"
  shows "\<exists>doy. monthDayToDOY month day = Some doy \<and>
           doy = sum_list (take (nat (month - 1))
                   [31, 29, 31, 30, 31, 30, 31, 31, 30, 31, 30, 31]) + day \<and>
           1 \<le> doy \<and> doy \<le> 366"
proof -
  have "monthDayToDOY month day =
          Some (sum_list (take (nat (month - 1)) (tl daysInMonth)) + day)"
    using assms by (intro monthDayToDOY_valid) auto
  moreover have "tl daysInMonth = [31, 29, 31, 30, 31, 30, 31, 31, 30, 31, 30, 31]"
    by (simp add: daysInMonth_def)
  ultimately show ?thesis
    using offset_bound [OF assms(1,2)] assms(3,4) by simp
qed

theorem monthDayToDOY_table_sum_witness:
  "monthDayToDOY 3 1 = Some 61 \<and> monthDayToDOY 12 31 = Some 366 \<and> monthDayToDOY 1 1 = Some 1"
  using monthDayToDOY_table_sum [of 3 1] monthDayToDOY_table_sum [of 12 31]
    monthDayToDOY_table_sum [of 1 1]
  by simp

section \<open>What New establishes for its ranges\<close>

lemma ParseMonthDay_bounds:
  assumes "ParseMonthDay s = Inr (m, d)"
  shows "1 \<le> m \<and> m \<le> 12 \<and> 1 \<le> d \<and> d \<le> 31"
  using assms
  by (auto simp: ParseMonthDay_def Let_def split: if_splits option.splits)

lemma isYearWrap_valid:
  assumes "1 \<le> sm" "sm \<le> 12" "1 \<le> em" "em \<le> 12"
  shows "\<exists>w. isYearWrap sm sd em ed = Some w"
  using assms by (simp add: isYearWrap_def monthDayToDOY_valid)

lemma New_loop_compiled:
  assumes "list_all compiledRange (ranges s)" and "New_loop s es = Some (Inr s')"
  shows "list_all compiledRange (ranges s') \<and> defaultAlbum s' = defaultAlbum s"
  using assms
proof (induction es arbitrary: s)
  case Nil
  then show ?case by simp
next
  case (Cons e es)
  from Cons.prems(2) obtain sm sd em ed w where
    ps: "ParseMonthDay (Start e) = Inr (sm, sd)" and
    pe: "ParseMonthDay (End e) = Inr (em, ed)" and
    w: "isYearWrap sm sd em ed = Some w" and
    rest: "New_loop
             (s\<lparr>ranges := ranges s @
                 [\<lparr>name = Name e, album = Album e, startMonth = sm, startDay = sd,
                   endMonth = em, endDay = ed, wrapsYear = w\<rparr>]\<rparr>) es = Some (Inr s')"
    by (auto split: sum.splits option.splits prod.splits)
  have "compiledRange \<lparr>name = Name e, album = Album e, startMonth = sm, startDay = sd,
                   endMonth = em, endDay = ed, wrapsYear = w\<rparr>"
    using ParseMonthDay_bounds [OF ps] ParseMonthDay_bounds [OF pe] w
    by (simp add: compiledRange_def)
  with Cons.prems(1) have "list_all compiledRange
      (ranges (s\<lparr>ranges := ranges s @
                 [\<lparr>name = Name e, album = Album e, startMonth = sm, startDay = sd,
                   endMonth = em, endDay = ed, wrapsYear = w\<rparr>]\<rparr>))"
    by simp
  from Cons.IH [OF this rest] show ?case by simp
qed

lemma New_compiled:
  assumes "New cfg = Some (Inr s)"
  shows "list_all compiledRange (ranges s)" and "defaultAlbum s = DefaultAlbum cfg"
  using New_loop_compiled [of "\<lparr>defaultAlbum = DefaultAlbum cfg, ranges = []\<rparr>" "Schedule cfg" s]
    assms by (simp_all add: New_def)

lemma compiledRange_dateInRange:
  assumes "compiledRange r"
  shows "\<exists>startDOY endDOY.
           monthDayToDOY (startMonth r) (startDay r) = Some startDOY \<and>
           monthDayToDOY (endMonth r) (endDay r) = Some endDOY \<and>
           (wrapsYear r \<longleftrightarrow> endDOY < startDOY) \<and>
           (\<forall>currentDOY. dateInRange currentDOY r =
              Some (if wrapsYear r
                    then currentDOY \<ge> startDOY \<or> currentDOY \<le> endDOY
                    else currentDOY \<ge> startDOY \<and> currentDOY \<le> endDOY))"
proof -
  from assms have m: "1 \<le> startMonth r" "startMonth r \<le> 13" "1 \<le> endMonth r" "endMonth r \<le> 13"
    and w: "isYearWrap (startMonth r) (startDay r) (endMonth r) (endDay r) = Some (wrapsYear r)"
    by (simp_all add: compiledRange_def)
  obtain a b where a: "monthDayToDOY (startMonth r) (startDay r) = Some a"
    and b: "monthDayToDOY (endMonth r) (endDay r) = Some b"
    using m by (simp add: monthDayToDOY_valid)
  from w a b have "wrapsYear r \<longleftrightarrow> b < a"
    by (auto simp: isYearWrap_def)
  then show ?thesis
    using a b by (simp add: dateInRange_def)
qed

text \<open>
  C1. For every range of a scheduler that \<^verbatim>\<open>New\<close> returned, both boundary ordinals
  exist (no panic), the \<^verbatim>\<open>wrapsYear\<close> flag holds exactly when the end ordinal is
  strictly smaller than the start ordinal, and for every day-of-year \<^verbatim>\<open>dateInRange\<close>
  answers: with the flag, the day is at or after the start or at or before the end;
  without it, the day is at or after the start and at or before the end. Both bounds
  are inclusive.
\<close>

theorem wrapsYear_and_membership:
  assumes "New cfg = Some (Inr s)" and "r \<in> set (ranges s)"
  shows "\<exists>startDOY endDOY.
           monthDayToDOY (startMonth r) (startDay r) = Some startDOY \<and>
           monthDayToDOY (endMonth r) (endDay r) = Some endDOY \<and>
           (wrapsYear r \<longleftrightarrow> endDOY < startDOY) \<and>
           (\<forall>currentDOY. dateInRange currentDOY r =
              Some (if wrapsYear r
                    then currentDOY \<ge> startDOY \<or> currentDOY \<le> endDOY
                    else currentDOY \<ge> startDOY \<and> currentDOY \<le> endDOY))"
proof -
  have "compiledRange r"
    using New_compiled(1) [OF assms(1)] assms(2) by (simp add: list_all_iff)
  then show ?thesis
    by (rule compiledRange_dateInRange)
qed

theorem wrapsYear_and_membership_witness:
  "New cfg_YearWrap = Some (Inr \<lparr>defaultAlbum = ''default-album'', ranges =
       [\<lparr>name = ''christmas'', album = ''christmas-album'', startMonth = 11, startDay = 15,
         endMonth = 1, endDay = 1, wrapsYear = True\<rparr>]\<rparr>) \<and>
   monthDayToDOY 11 15 = Some 320 \<and> monthDayToDOY 1 1 = Some 1 \<and>
   dateInRange 319 \<lparr>name = ''christmas'', album = ''christmas-album'', startMonth = 11,
       startDay = 15, endMonth = 1, endDay = 1, wrapsYear = True\<rparr> = Some False \<and>
   dateInRange 320 \<lparr>name = ''christmas'', album = ''christmas-album'', startMonth = 11,
       startDay = 15, endMonth = 1, endDay = 1, wrapsYear = True\<rparr> = Some True \<and>
   dateInRange 1 \<lparr>name = ''christmas'', album = ''christmas-album'', startMonth = 11,
       startDay = 15, endMonth = 1, endDay = 1, wrapsYear = True\<rparr> = Some True \<and>
   dateInRange 2 \<lparr>name = ''christmas'', album = ''christmas-album'', startMonth = 11,
       startDay = 15, endMonth = 1, endDay = 1, wrapsYear = True\<rparr> = Some False"
proof -
  let ?r = "\<lparr>name = ''christmas'', album = ''christmas-album'', startMonth = 11,
       startDay = 15, endMonth = 1, endDay = 1, wrapsYear = True\<rparr>"
  let ?s = "\<lparr>defaultAlbum = ''default-album'', ranges = [?r]\<rparr>"
  have n: "New cfg_YearWrap = Some (Inr ?s)"
    by code_simp
  have r: "?r \<in> set (ranges ?s)"
    by simp
  have a: "monthDayToDOY 11 15 = Some 320" and b: "monthDayToDOY 1 1 = Some 1"
    by code_simp+
  from wrapsYear_and_membership [OF n r] a b
  have "\<forall>currentDOY. dateInRange currentDOY ?r = Some (currentDOY \<ge> 320 \<or> currentDOY \<le> 1)"
    by simp
  then show ?thesis
    using n a b by simp
qed

section \<open>The lookup loops\<close>

lemma compiledRange_dateInRange_Some:
  assumes "compiledRange r"
  shows "\<exists>b. dateInRange currentDOY r = Some b"
  using compiledRange_dateInRange [OF assms] by auto

lemma GetAlbumForDate_loop_total:
  assumes "list_all compiledRange rs"
  shows "\<exists>v. GetAlbumForDate_loop dflt currentDOY rs = Some v"
  using assms
proof (induction rs)
  case Nil
  then show ?case by simp
next
  case (Cons r rs)
  then obtain b where "dateInRange currentDOY r = Some b"
    using compiledRange_dateInRange_Some [of r currentDOY] by auto
  with Cons show ?case by simp
qed

lemma GetScheduleNameForDate_loop_total:
  assumes "list_all compiledRange rs"
  shows "\<exists>v. GetScheduleNameForDate_loop currentDOY rs = Some v"
  using assms
proof (induction rs)
  case Nil
  then show ?case by simp
next
  case (Cons r rs)
  then obtain b where "dateInRange currentDOY r = Some b"
    using compiledRange_dateInRange_Some [of r currentDOY] by auto
  with Cons show ?case by simp
qed

lemma GetAlbumForDate_loop_default:
  assumes "list_all compiledRange rs"
    and "\<forall>r \<in> set rs. dateInRange currentDOY r \<noteq> Some True"
  shows "GetAlbumForDate_loop dflt currentDOY rs = Some dflt"
  using assms
proof (induction rs)
  case Nil
  then show ?case by simp
next
  case (Cons r rs)
  then obtain b where "dateInRange currentDOY r = Some b"
    using compiledRange_dateInRange_Some [of r currentDOY] by auto
  with Cons show ?case by auto
qed

lemma GetScheduleNameForDate_loop_default:
  assumes "list_all compiledRange rs"
    and "\<forall>r \<in> set rs. dateInRange currentDOY r \<noteq> Some True"
  shows "GetScheduleNameForDate_loop currentDOY rs = Some ''default''"
  using assms
proof (induction rs)
  case Nil
  then show ?case by simp
next
  case (Cons r rs)
  then obtain b where "dateInRange currentDOY r = Some b"
    using compiledRange_dateInRange_Some [of r currentDOY] by auto
  with Cons show ?case by auto
qed

lemma GetAlbumForDate_loop_first:
  assumes "list_all compiledRange rs" and "i < length rs"
    and "dateInRange currentDOY (rs ! i) = Some True"
    and "\<forall>j < i. dateInRange currentDOY (rs ! j) \<noteq> Some True"
  shows "GetAlbumForDate_loop dflt currentDOY rs = Some (album (rs ! i))"
  using assms
proof (induction rs arbitrary: i)
  case Nil
  then show ?case by simp
next
  case (Cons r rs)
  show ?case
  proof (cases i)
    case 0
    with Cons.prems show ?thesis by simp
  next
    case (Suc k)
    obtain b where b: "dateInRange currentDOY r = Some b"
      using Cons.prems(1) compiledRange_dateInRange_Some [of r currentDOY] by auto
    have "dateInRange currentDOY r \<noteq> Some True"
      using Cons.prems(4) Suc by auto
    with b have nb: "\<not> b" by auto
    have "\<forall>j < k. dateInRange currentDOY (rs ! j) \<noteq> Some True"
      using Cons.prems(4) Suc by auto
    then have "GetAlbumForDate_loop dflt currentDOY rs = Some (album (rs ! k))"
      using Cons.prems Suc by (intro Cons.IH) auto
    then show ?thesis
      using b nb Suc by simp
  qed
qed

lemma GetScheduleNameForDate_loop_first:
  assumes "list_all compiledRange rs" and "i < length rs"
    and "dateInRange currentDOY (rs ! i) = Some True"
    and "\<forall>j < i. dateInRange currentDOY (rs ! j) \<noteq> Some True"
  shows "GetScheduleNameForDate_loop currentDOY rs = Some (name (rs ! i))"
  using assms
proof (induction rs arbitrary: i)
  case Nil
  then show ?case by simp
next
  case (Cons r rs)
  show ?case
  proof (cases i)
    case 0
    with Cons.prems show ?thesis by simp
  next
    case (Suc k)
    obtain b where b: "dateInRange currentDOY r = Some b"
      using Cons.prems(1) compiledRange_dateInRange_Some [of r currentDOY] by auto
    have "dateInRange currentDOY r \<noteq> Some True"
      using Cons.prems(4) Suc by auto
    with b have nb: "\<not> b" by auto
    have "\<forall>j < k. dateInRange currentDOY (rs ! j) \<noteq> Some True"
      using Cons.prems(4) Suc by auto
    then have "GetScheduleNameForDate_loop currentDOY rs = Some (name (rs ! k))"
      using Cons.prems Suc by (intro Cons.IH) auto
    then show ?thesis
      using b nb Suc by simp
  qed
qed

lemma validTime_ordinal:
  assumes "validTime t"
  shows "\<exists>currentDOY. monthDayToDOY (Month t) (Day t) = Some currentDOY"
  using assms by (simp add: validTime_def monthDayToDOY_valid)

lemma New_empty:
  assumes "Schedule cfg = []"
  shows "New cfg = Some (Inr \<lparr>defaultAlbum = DefaultAlbum cfg, ranges = []\<rparr>)"
  using assms by (simp add: New_def)

text \<open>
  C5. A configuration with an empty schedule is constructed successfully. For every
  scheduler that \<^verbatim>\<open>New\<close> returned and every date with month in 1..12 and day in 1..31,
  both lookups return a result (no panic); when no range matches the date, and in
  particular when the schedule is empty, \<^verbatim>\<open>GetAlbumForDate\<close> returns the configured
  default album and \<^verbatim>\<open>GetScheduleNameForDate\<close> returns the string "default".
\<close>

theorem lookup_never_fails:
  "(Schedule cfg = [] \<longrightarrow> New cfg = Some (Inr \<lparr>defaultAlbum = DefaultAlbum cfg, ranges = []\<rparr>)) \<and>
   (\<forall>s t. New cfg = Some (Inr s) \<and> validTime t \<longrightarrow>
      (\<exists>v. GetAlbumForDate s t = Some v) \<and>
      (\<exists>n. GetScheduleNameForDate s t = Some n) \<and>
      ((\<forall>r \<in> set (ranges s). \<not> matchesDate t r) \<longrightarrow>
         GetAlbumForDate s t = Some (DefaultAlbum cfg) \<and>
         GetScheduleNameForDate s t = Some ''default'') \<and>
      (Schedule cfg = [] \<longrightarrow>
         GetAlbumForDate s t = Some (DefaultAlbum cfg) \<and>
         GetScheduleNameForDate s t = Some ''default''))"
proof (intro conjI allI impI)
  assume "Schedule cfg = []"
  then show "New cfg = Some (Inr \<lparr>defaultAlbum = DefaultAlbum cfg, ranges = []\<rparr>)"
    by (rule New_empty)
next
  fix s t
  assume a: "New cfg = Some (Inr s) \<and> validTime t"
  then have inv: "list_all compiledRange (ranges s)" and dflt: "defaultAlbum s = DefaultAlbum cfg"
    using New_compiled by auto
  from a obtain cur where cur: "monthDayToDOY (Month t) (Day t) = Some cur"
    using validTime_ordinal by blast
  show "\<exists>v. GetAlbumForDate s t = Some v"
    using GetAlbumForDate_loop_total [OF inv] cur by (simp add: GetAlbumForDate_def)
  show "\<exists>n. GetScheduleNameForDate s t = Some n"
    using GetScheduleNameForDate_loop_total [OF inv] cur by (simp add: GetScheduleNameForDate_def)
  {
    assume "\<forall>r \<in> set (ranges s). \<not> matchesDate t r"
    then have nm: "\<forall>r \<in> set (ranges s). dateInRange cur r \<noteq> Some True"
      using cur by (simp add: matchesDate_def)
    show "GetAlbumForDate s t = Some (DefaultAlbum cfg)"
      using GetAlbumForDate_loop_default [OF inv nm] cur dflt by (simp add: GetAlbumForDate_def)
    show "GetScheduleNameForDate s t = Some ''default''"
      using GetScheduleNameForDate_loop_default [OF inv nm] cur
      by (simp add: GetScheduleNameForDate_def)
  }
  {
    assume "Schedule cfg = []"
    then have "ranges s = []"
      using a New_empty [of cfg] by auto
    then show "GetAlbumForDate s t = Some (DefaultAlbum cfg)"
      and "GetScheduleNameForDate s t = Some ''default''"
      using cur dflt by (simp_all add: GetAlbumForDate_def GetScheduleNameForDate_def)
  }
qed

theorem lookup_never_fails_witness:
  "New cfg_EmptySchedule = Some (Inr \<lparr>defaultAlbum = ''default-album'', ranges = []\<rparr>) \<and>
   New cfg_SimpleRange = Some (Inr \<lparr>defaultAlbum = ''default-album'', ranges =
       [\<lparr>name = ''summer'', album = ''summer-album'', startMonth = 6, startDay = 21,
         endMonth = 9, endDay = 21, wrapsYear = False\<rparr>]\<rparr>) \<and>
   validTime \<lparr>Month = 6, Day = 20\<rparr> \<and>
   GetAlbumForDate \<lparr>defaultAlbum = ''default-album'', ranges =
       [\<lparr>name = ''summer'', album = ''summer-album'', startMonth = 6, startDay = 21,
         endMonth = 9, endDay = 21, wrapsYear = False\<rparr>]\<rparr> \<lparr>Month = 6, Day = 20\<rparr>
     = Some ''default-album'' \<and>
   GetScheduleNameForDate \<lparr>defaultAlbum = ''default-album'', ranges =
       [\<lparr>name = ''summer'', album = ''summer-album'', startMonth = 6, startDay = 21,
         endMonth = 9, endDay = 21, wrapsYear = False\<rparr>]\<rparr> \<lparr>Month = 6, Day = 20\<rparr>
     = Some ''default''"
proof -
  let ?s = "\<lparr>defaultAlbum = ''default-album'', ranges =
       [\<lparr>name = ''summer'', album = ''summer-album'', startMonth = 6, startDay = 21,
         endMonth = 9, endDay = 21, wrapsYear = False\<rparr>]\<rparr>"
  let ?t = "\<lparr>Month = 6, Day = 20\<rparr>"
  have e: "Schedule cfg_EmptySchedule = []"
    by (simp add: cfg_EmptySchedule_def testConfig_def)
  have n: "New cfg_SimpleRange = Some (Inr ?s)"
    by code_simp
  have v: "validTime ?t"
    by (simp add: validTime_def)
  have nm: "\<forall>r \<in> set (ranges ?s). \<not> matchesDate ?t r"
    by code_simp
  have "GetAlbumForDate ?s ?t = Some (DefaultAlbum cfg_SimpleRange) \<and>
        GetScheduleNameForDate ?s ?t = Some ''default''"
    using lookup_never_fails [of cfg_SimpleRange] n v nm by blast
  moreover have "New cfg_EmptySchedule =
      Some (Inr \<lparr>defaultAlbum = DefaultAlbum cfg_EmptySchedule, ranges = []\<rparr>)"
    using lookup_never_fails [of cfg_EmptySchedule] e by blast
  ultimately show ?thesis
    using n v by (simp add: cfg_SimpleRange_def cfg_EmptySchedule_def testConfig_def)
qed

section \<open>Order of the ordinals\<close>

lemma offset_next:
  assumes "1 \<le> (m1 :: int)" and "m1 < m2" and "m2 \<le> 12"
  shows "sum_list (take (nat (m1 - 1)) (tl daysInMonth)) + daysInMonth ! nat m1
           \<le> sum_list (take (nat (m2 - 1)) (tl daysInMonth))"
proof -
  have "m1 \<in> {1, 2, 3, 4, 5, 6, 7, 8, 9, 10, 11, 12}"
    using assms by (intro month_cases) simp_all
  moreover have "m2 \<in> {1, 2, 3, 4, 5, 6, 7, 8, 9, 10, 11, 12}"
    using assms by (intro month_cases) simp_all
  ultimately show ?thesis
    using assms(2) by (auto simp: daysInMonth_def)
qed

text \<open>
  C4, as the code has it. For two pairs with months in 1..12 and days in 1..31, the first
  strictly earlier in calendar order, the first ordinal is strictly smaller than the
  second provided the first pair's day exists in its month according to the table
  (\<open>d1 \<le> daysInMonth[m1]\<close>). Equal pairs have the same ordinal.
\<close>

theorem monthDayToDOY_strictly_monotonic:
  assumes "1 \<le> m1" and "m1 \<le> 12" and "1 \<le> d1" and "d1 \<le> 31"
    and "1 \<le> m2" and "m2 \<le> 12" and "1 \<le> d2" and "d2 \<le> 31"
  shows "(d1 \<le> daysInMonth ! nat m1 \<and> (m1 < m2 \<or> (m1 = m2 \<and> d1 < d2)) \<longrightarrow>
            (\<exists>o1 o2. monthDayToDOY m1 d1 = Some o1 \<and> monthDayToDOY m2 d2 = Some o2 \<and> o1 < o2)) \<and>
         (m1 = m2 \<and> d1 = d2 \<longrightarrow>
            (\<exists>o1. monthDayToDOY m1 d1 = Some o1 \<and> monthDayToDOY m2 d2 = Some o1))"
proof (intro conjI impI)
  have o1: "monthDayToDOY m1 d1 = Some (sum_list (take (nat (m1 - 1)) (tl daysInMonth)) + d1)"
    using assms by (intro monthDayToDOY_valid) auto
  have o2: "monthDayToDOY m2 d2 = Some (sum_list (take (nat (m2 - 1)) (tl daysInMonth)) + d2)"
    using assms by (intro monthDayToDOY_valid) auto
  {
    assume a: "d1 \<le> daysInMonth ! nat m1 \<and> (m1 < m2 \<or> (m1 = m2 \<and> d1 < d2))"
    have "sum_list (take (nat (m1 - 1)) (tl daysInMonth)) + d1
            < sum_list (take (nat (m2 - 1)) (tl daysInMonth)) + d2"
    proof (cases "m1 < m2")
      case True
      from offset_next [OF assms(1) True assms(6)] a assms(7) show ?thesis
        by linarith
    next
      case False
      with a show ?thesis by auto
    qed
    with o1 o2 show "\<exists>o1 o2. monthDayToDOY m1 d1 = Some o1 \<and> monthDayToDOY m2 d2 = Some o2 \<and> o1 < o2"
      by simp
  }
  {
    assume "m1 = m2 \<and> d1 = d2"
    with o1 show "\<exists>o1. monthDayToDOY m1 d1 = Some o1 \<and> monthDayToDOY m2 d2 = Some o1"
      by simp
  }
qed

theorem monthDayToDOY_strictly_monotonic_witness:
  "(29::int) \<le> daysInMonth ! nat 2 \<and>
   monthDayToDOY 2 29 = Some 60 \<and> monthDayToDOY 3 1 = Some 61 \<and>
   monthDayToDOY 12 31 = Some 366"
proof -
  have d: "(29::int) \<le> daysInMonth ! nat 2"
    by (simp add: daysInMonth_def)
  have "\<exists>o1 o2. monthDayToDOY 2 29 = Some o1 \<and> monthDayToDOY 3 1 = Some o2 \<and> o1 < o2"
    using monthDayToDOY_strictly_monotonic [of 2 29 3 1] d by simp
  moreover have "monthDayToDOY 2 29 = Some 60" "monthDayToDOY 3 1 = Some 61"
    "monthDayToDOY 12 31 = Some 366"
    by code_simp+
  ultimately show ?thesis
    using d by simp
qed

text \<open>
  C4 as stated fails on pairs that \<^verbatim>\<open>ParseMonthDay\<close> accepts: "02-30" and "03-01"
  parse to (2, 30) and (3, 1), the first earlier in calendar order, and both have the
  ordinal 61; "02-31" has the ordinal 62, above that of the later "03-01".
\<close>

theorem monthDayToDOY_not_monotonic:
  "ParseMonthDay ''02-30'' = Inr (2, 30) \<and> ParseMonthDay ''02-31'' = Inr (2, 31) \<and>
   ParseMonthDay ''03-01'' = Inr (3, 1) \<and>
   monthDayToDOY 2 30 = Some 61 \<and> monthDayToDOY 2 31 = Some 62 \<and> monthDayToDOY 3 1 = Some 61"
  by code_simp

section \<open>Splitting and parsing\<close>

lemma Split_no_sep:
  "sep \<notin> set s \<Longrightarrow> Split s sep = [s]"
  by (subst Split.simps) simp

lemma Split_append:
  assumes "sep \<notin> set a"
  shows "Split (a @ sep # b) sep = a # Split b sep"
proof -
  have "takeWhile (\<lambda>c. c \<noteq> sep) (a @ sep # b) = a"
    using assms by (induction a) auto
  moreover have "dropWhile (\<lambda>c. c \<noteq> sep) (a @ sep # b) = sep # b"
    using assms by (induction a) auto
  ultimately show ?thesis
    by (subst Split.simps) simp
qed

lemma Split_length_one:
  "length (Split s sep) = 1 \<longleftrightarrow> sep \<notin> set s"
proof (cases "sep \<in> set s")
  case True
  then obtain a b where s: "s = a @ sep # b" and a: "sep \<notin> set a"
    by (auto dest: split_list_first)
  have "Split b sep \<noteq> []"
    by (subst Split.simps) simp
  then show ?thesis
    using True s Split_append [OF a, of b] by simp
next
  case False
  then show ?thesis
    by (simp add: Split_no_sep)
qed

lemma Split_two:
  "Split s sep = [a, b] \<longleftrightarrow> s = a @ sep # b \<and> sep \<notin> set a \<and> sep \<notin> set b"
proof
  assume two: "Split s sep = [a, b]"
  have "sep \<in> set s"
  proof (rule ccontr)
    assume "sep \<notin> set s"
    then have "Split s sep = [s]" by (rule Split_no_sep)
    with two show False by simp
  qed
  then obtain a' b' where s: "s = a' @ sep # b'" and a': "sep \<notin> set a'"
    by (auto dest: split_list_first)
  from two s Split_append [OF a', of b'] have aa: "a = a'" and b': "Split b' sep = [b]"
    by simp_all
  from b' have "length (Split b' sep) = 1"
    by simp
  then have nb: "sep \<notin> set b'"
    using Split_length_one [of b' sep] by simp
  then have "b = b'"
    using b' by (simp add: Split_no_sep)
  with s aa a' nb show "s = a @ sep # b \<and> sep \<notin> set a \<and> sep \<notin> set b"
    by simp
next
  assume "s = a @ sep # b \<and> sep \<notin> set a \<and> sep \<notin> set b"
  then show "Split s sep = [a, b]"
    by (simp add: Split_append Split_no_sep)
qed

lemma ParseMonthDay_two:
  assumes "Split s (CHR ''-'') = [a, b]"
  shows "ParseMonthDay s =
     (case Atoi a of
        None \<Rightarrow> Inl (InvalidMonth a)
      | Some month \<Rightarrow>
          if month < 1 \<or> month > 12 then Inl (InvalidMonth a)
          else (case Atoi b of
                  None \<Rightarrow> Inl (InvalidDay b)
                | Some day \<Rightarrow>
                    if day < 1 \<or> day > 31 then Inl (InvalidDay b)
                    else Inr (month, day)))"
  using assms by (simp add: ParseMonthDay_def Let_def split: option.splits)

lemma ParseMonthDay_not_two:
  assumes "length (Split s (CHR ''-'')) \<noteq> 2"
  shows "ParseMonthDay s = Inl (InvalidFormat s)"
  using assms by (simp add: ParseMonthDay_def)

lemma length_two_obtain:
  assumes "length xs = 2"
  obtains a b where "xs = [a, b]"
  using assms by (cases xs; cases "tl xs") auto

lemma isDigit_iff:
  "isDigit c \<longleftrightarrow> c \<in> set ''0123456789''"
proof
  assume "isDigit c"
  then have "(of_char c :: nat) \<in> {48, 49, 50, 51, 52, 53, 54, 55, 56, 57}"
    unfolding isDigit_def by simp arith
  moreover have "(of_char (CHR ''0'') :: nat) = 48" "(of_char (CHR ''1'') :: nat) = 49"
    "(of_char (CHR ''2'') :: nat) = 50" "(of_char (CHR ''3'') :: nat) = 51"
    "(of_char (CHR ''4'') :: nat) = 52" "(of_char (CHR ''5'') :: nat) = 53"
    "(of_char (CHR ''6'') :: nat) = 54" "(of_char (CHR ''7'') :: nat) = 55"
    "(of_char (CHR ''8'') :: nat) = 56" "(of_char (CHR ''9'') :: nat) = 57"
    by simp_all
  ultimately have "(of_char c :: nat) \<in> of_char ` set ''0123456789''"
    by auto
  then show "c \<in> set ''0123456789''"
    by (auto simp del: of_char_Char)
next
  assume "c \<in> set ''0123456789''"
  then show "isDigit c"
    by (auto simp: isDigit_def)
qed

lemma list_all_isDigit:
  "list_all isDigit s = list_all (\<lambda>c. c \<in> set ''0123456789'') s"
  by (simp add: list_all_iff isDigit_iff)

lemma decimal_iff:
  "decimal ds v \<longleftrightarrow> ds \<noteq> [] \<and> list_all isDigit ds \<and> v = digitsValue ds"
  by (simp only: decimal_def list_all_isDigit digitsValue_def)

lemma decimal_no_sign:
  assumes "decimal ds v"
  shows "hd ds \<noteq> CHR ''-''" and "hd ds \<noteq> CHR ''+''"
  using assms by (cases ds; auto simp: decimal_def)+

lemma decimal_chars:
  assumes "decimal ds v"
  shows "set ds \<subseteq> set ''0123456789''"
  using assms by (simp only: decimal_def list_all_iff) blast

text \<open>
  What \<^verbatim>\<open>Atoi\<close> accepts, in full: decimal digits after an optional sign, within the
  range of a 64-bit \<^verbatim>\<open>int\<close>.
\<close>

lemma Atoi_iff:
  "Atoi a = Some k \<longleftrightarrow>
     (\<exists>ds v. decimal ds v \<and>
        ((a = ds \<or> a = CHR ''+'' # ds) \<and> k = v \<and> v < 2 ^ 63 \<or>
         a = CHR ''-'' # ds \<and> k = - v \<and> v \<le> 2 ^ 63))"
proof (cases a)
  case Nil
  then show ?thesis
    by (auto simp: Atoi_def decimal_iff)
next
  case (Cons c cs)
  consider (minus) "c = CHR ''-''" | (plus) "c = CHR ''+''"
    | (other) "c \<noteq> CHR ''-''" "c \<noteq> CHR ''+''"
    by blast
  then show ?thesis
  proof cases
    case minus
    have "Atoi a = Some k \<longleftrightarrow> decimal cs (digitsValue cs) \<and> k = - digitsValue cs \<and>
            digitsValue cs \<le> 2 ^ 63"
      using Cons minus by (auto simp: Atoi_def Let_def decimal_iff intSize_def)
    also have "\<dots> \<longleftrightarrow> (\<exists>ds v. decimal ds v \<and>
        ((a = ds \<or> a = CHR ''+'' # ds) \<and> k = v \<and> v < 2 ^ 63 \<or>
         a = CHR ''-'' # ds \<and> k = - v \<and> v \<le> 2 ^ 63))"
      using Cons minus decimal_no_sign(1) [of a]
      by (auto simp: decimal_iff)
    finally show ?thesis .
  next
    case plus
    have "Atoi a = Some k \<longleftrightarrow> decimal cs (digitsValue cs) \<and> k = digitsValue cs \<and>
            digitsValue cs < 2 ^ 63"
      using Cons plus by (auto simp: Atoi_def Let_def decimal_iff intSize_def)
    also have "\<dots> \<longleftrightarrow> (\<exists>ds v. decimal ds v \<and>
        ((a = ds \<or> a = CHR ''+'' # ds) \<and> k = v \<and> v < 2 ^ 63 \<or>
         a = CHR ''-'' # ds \<and> k = - v \<and> v \<le> 2 ^ 63))"
      using Cons plus decimal_no_sign(2) [of a]
      by (auto simp: decimal_iff)
    finally show ?thesis .
  next
    case other
    have "Atoi a = Some k \<longleftrightarrow> decimal a (digitsValue a) \<and> k = digitsValue a \<and>
            digitsValue a < 2 ^ 63"
      using Cons other by (auto simp: Atoi_def Let_def decimal_iff intSize_def)
    also have "\<dots> \<longleftrightarrow> (\<exists>ds v. decimal ds v \<and>
        ((a = ds \<or> a = CHR ''+'' # ds) \<and> k = v \<and> v < 2 ^ 63 \<or>
         a = CHR ''-'' # ds \<and> k = - v \<and> v \<le> 2 ^ 63))"
      using Cons other
      by (auto simp: decimal_iff)
    finally show ?thesis .
  qed
qed

lemma numericSegment_iff:
  "numericSegment a k \<longleftrightarrow> (\<exists>ds. (a = ds \<or> a = CHR ''+'' # ds) \<and> decimal ds k)"
proof (cases a)
  case Nil
  then show ?thesis
    by (auto simp: numericSegment_def decimal_def)
next
  case (Cons c cs)
  then show ?thesis
    by (auto simp: numericSegment_def)
qed

lemma numericSegment_chars:
  assumes "numericSegment a k"
  shows "set a \<subseteq> set ''+0123456789''"
proof -
  from assms obtain ds where a: "a = ds \<or> a = CHR ''+'' # ds" and d: "decimal ds k"
    unfolding numericSegment_iff by blast
  define D where "D = set ''0123456789''"
  define P where "P = set ''+0123456789''"
  have w: "D \<subseteq> P" and p: "CHR ''+'' \<in> P"
    unfolding D_def P_def by simp_all
  have "set ds \<subseteq> D"
    using decimal_chars [OF d] unfolding D_def .
  with a w p have "set a \<subseteq> P"
    by auto
  then show ?thesis
    unfolding P_def .
qed

lemma numericSegment_no_hyphen:
  assumes "numericSegment a k"
  shows "CHR ''-'' \<notin> set a"
proof -
  define P where "P = set ''+0123456789''"
  have "CHR ''-'' \<notin> P"
    unfolding P_def by simp
  moreover have "set a \<subseteq> P"
    using numericSegment_chars [OF assms] unfolding P_def .
  ultimately show ?thesis
    by blast
qed

lemma Atoi_segment:
  assumes "CHR ''-'' \<notin> set a"
  shows "Atoi a = Some k \<longleftrightarrow> numericSegment a k \<and> k < 2 ^ 63"
proof -
  have "a \<noteq> CHR ''-'' # ds" for ds
    using assms by auto
  then show ?thesis
    unfolding Atoi_iff numericSegment_iff by blast
qed

lemma ParseMonthDay_Inr_iff:
  "ParseMonthDay s = Inr (m, d) \<longleftrightarrow>
      (\<exists>a b. s = a @ CHR ''-'' # b \<and> CHR ''-'' \<notin> set a \<and> CHR ''-'' \<notin> set b \<and>
             Atoi a = Some m \<and> Atoi b = Some d \<and> 1 \<le> m \<and> m \<le> 12 \<and> 1 \<le> d \<and> d \<le> 31)"
proof
  assume ok: "ParseMonthDay s = Inr (m, d)"
  then have "length (Split s (CHR ''-'')) = 2"
    using ParseMonthDay_not_two [of s] by auto
  then obtain a b where ab: "Split s (CHR ''-'') = [a, b]"
    by (rule length_two_obtain)
  from ok have "Atoi a = Some m \<and> Atoi b = Some d \<and> 1 \<le> m \<and> m \<le> 12 \<and> 1 \<le> d \<and> d \<le> 31"
    unfolding ParseMonthDay_two [OF ab]
    by (auto split: option.splits if_splits)
  with ab show "\<exists>a b. s = a @ CHR ''-'' # b \<and> CHR ''-'' \<notin> set a \<and> CHR ''-'' \<notin> set b \<and>
           Atoi a = Some m \<and> Atoi b = Some d \<and> 1 \<le> m \<and> m \<le> 12 \<and> 1 \<le> d \<and> d \<le> 31"
    using Split_two [of s "CHR ''-''" a b] by blast
next
  assume "\<exists>a b. s = a @ CHR ''-'' # b \<and> CHR ''-'' \<notin> set a \<and> CHR ''-'' \<notin> set b \<and>
           Atoi a = Some m \<and> Atoi b = Some d \<and> 1 \<le> m \<and> m \<le> 12 \<and> 1 \<le> d \<and> d \<le> 31"
  then obtain a b where ab: "Split s (CHR ''-'') = [a, b]"
    and v: "Atoi a = Some m" "Atoi b = Some d" "1 \<le> m" "m \<le> 12" "1 \<le> d" "d \<le> 31"
    using Split_two [of s "CHR ''-''"] by blast
  show "ParseMonthDay s = Inr (m, d)"
    unfolding ParseMonthDay_two [OF ab] using v by simp
qed

lemma ParseMonthDay_numeric_iff:
  "ParseMonthDay s = Inr (m, d) \<longleftrightarrow>
      (\<exists>a b. s = a @ CHR ''-'' # b \<and> numericSegment a m \<and> numericSegment b d \<and>
             1 \<le> m \<and> m \<le> 12 \<and> 1 \<le> d \<and> d \<le> 31)"
proof
  assume "ParseMonthDay s = Inr (m, d)"
  then obtain a b where s: "s = a @ CHR ''-'' # b"
    and h: "CHR ''-'' \<notin> set a" "CHR ''-'' \<notin> set b"
    and v: "Atoi a = Some m" "Atoi b = Some d" and r: "1 \<le> m" "m \<le> 12" "1 \<le> d" "d \<le> 31"
    unfolding ParseMonthDay_Inr_iff by blast
  from h v have "numericSegment a m" "numericSegment b d"
    by (simp_all add: Atoi_segment)
  with s r show "\<exists>a b. s = a @ CHR ''-'' # b \<and> numericSegment a m \<and> numericSegment b d \<and>
             1 \<le> m \<and> m \<le> 12 \<and> 1 \<le> d \<and> d \<le> 31"
    by blast
next
  assume "\<exists>a b. s = a @ CHR ''-'' # b \<and> numericSegment a m \<and> numericSegment b d \<and>
             1 \<le> m \<and> m \<le> 12 \<and> 1 \<le> d \<and> d \<le> 31"
  then obtain a b where s: "s = a @ CHR ''-'' # b"
    and n: "numericSegment a m" "numericSegment b d"
    and r: "1 \<le> m" "m \<le> 12" "1 \<le> d" "d \<le> 31"
    by blast
  have h: "CHR ''-'' \<notin> set a" "CHR ''-'' \<notin> set b"
    using n by (simp_all only: numericSegment_no_hyphen not_False_eq_True)
  have "m < 2 ^ 63" "d < 2 ^ 63"
    using r by simp_all
  with n h have "Atoi a = Some m" "Atoi b = Some d"
    by (simp_all add: Atoi_segment)
  with s h r show "ParseMonthDay s = Inr (m, d)"
    unfolding ParseMonthDay_Inr_iff by blast
qed

lemma ParseMonthDay_Inl_cases:
  assumes bad: "ParseMonthDay s = Inl e"
  shows "(e = InvalidFormat s \<and> length (Split s (CHR ''-'')) \<noteq> 2) \<or>
      (\<exists>a b. Split s (CHR ''-'') = [a, b] \<and> e = InvalidMonth a \<and>
             (\<forall>k. Atoi a = Some k \<longrightarrow> k < 1 \<or> 12 < k)) \<or>
      (\<exists>a b. Split s (CHR ''-'') = [a, b] \<and> e = InvalidDay b \<and>
             (\<forall>k. Atoi b = Some k \<longrightarrow> k < 1 \<or> 31 < k))"
proof (cases "length (Split s (CHR ''-'')) = 2")
  case False
  with bad show ?thesis
    by (simp add: ParseMonthDay_not_two)
next
  case True
  then obtain a b where ab: "Split s (CHR ''-'') = [a, b]"
    by (rule length_two_obtain)
  from bad have "(e = InvalidMonth a \<and> (\<forall>k. Atoi a = Some k \<longrightarrow> k < 1 \<or> 12 < k)) \<or>
                 (e = InvalidDay b \<and> (\<forall>k. Atoi b = Some k \<longrightarrow> k < 1 \<or> 31 < k))"
    unfolding ParseMonthDay_two [OF ab]
    by (auto split: option.splits if_splits)
  with ab show ?thesis
    by blast
qed

lemma ParseMonthDay_foreign_char:
  assumes "c \<in> set s" and "c \<notin> set ''+-0123456789''"
  shows "isl (ParseMonthDay s)"
proof (cases "ParseMonthDay s")
  case (Inl e)
  then show ?thesis by simp
next
  case (Inr p)
  obtain m d where "p = (m, d)"
    by (cases p)
  with Inr have "ParseMonthDay s = Inr (m, d)"
    by simp
  then obtain a b where s: "s = a @ CHR ''-'' # b"
    and n: "numericSegment a m" "numericSegment b d"
    using ParseMonthDay_numeric_iff [of s m d] by blast
  define P where "P = set ''+0123456789''"
  define Q where "Q = set ''+-0123456789''"
  have w: "P \<subseteq> Q" and h: "CHR ''-'' \<in> Q"
    unfolding P_def Q_def by simp_all
  have "set a \<subseteq> P" "set b \<subseteq> P"
    using numericSegment_chars [OF n(1)] numericSegment_chars [OF n(2)] unfolding P_def .
  with s w h have "set s \<subseteq> Q"
    by auto
  moreover have "c \<in> set s" "c \<notin> Q"
    using assms unfolding Q_def .
  ultimately show ?thesis
    by blast
qed

text \<open>
  C7. \<^verbatim>\<open>ParseMonthDay\<close> returns the pair (m, d) exactly when the input is two segments
  without a hyphen around one hyphen, \<^verbatim>\<open>Atoi\<close> reads m from the first and d from the
  second, and 1 \<le> m \<le> 12 and 1 \<le> d \<le> 31; no day count per month is checked. What
  \<^verbatim>\<open>Atoi\<close> reads from a segment without a hyphen is a number: one or more of the digits
  0 to 9, after at most one plus sign, with their decimal value (below 2^63). So the
  parse succeeds exactly on two such numeric segments within the bounds, and an input
  with any character other than a digit, a plus or a hyphen fails. Every failure is one
  of three: the segment count is not two (format error with the input), the first
  segment is not a number in 1..12 (month error with that segment), or the second is
  not a number in 1..31 (day error with that segment); the three messages differ from
  their ninth character on ("invalid f", "invalid m", "invalid d"). So "11-15" gives
  (11, 15), "02-30" gives (2, 30); "2024-11-15" and "1115" fail with a format error,
  "13-01", "00-10" and the non-numeric "ab-01", ":-1", "/1-01", "1_0-01", " 1-01",
  "+-01" and "-01" with a month error, "01-32", "01-00" and the non-numeric "1-5 ",
  "01-0x1" and "01-" with a day error.
\<close>

theorem ParseMonthDay_succeeds_iff:
  "(ParseMonthDay s = Inr (m, d) \<longleftrightarrow>
      (\<exists>a b. s = a @ CHR ''-'' # b \<and> CHR ''-'' \<notin> set a \<and> CHR ''-'' \<notin> set b \<and>
             Atoi a = Some m \<and> Atoi b = Some d \<and> 1 \<le> m \<and> m \<le> 12 \<and> 1 \<le> d \<and> d \<le> 31)) \<and>
   (\<forall>a k. CHR ''-'' \<notin> set a \<longrightarrow>
      (Atoi a = Some k \<longleftrightarrow> numericSegment a k \<and> k < 2 ^ 63)) \<and>
   (ParseMonthDay s = Inr (m, d) \<longleftrightarrow>
      (\<exists>a b. s = a @ CHR ''-'' # b \<and> numericSegment a m \<and> numericSegment b d \<and>
             1 \<le> m \<and> m \<le> 12 \<and> 1 \<le> d \<and> d \<le> 31)) \<and>
   (\<forall>c. c \<in> set s \<and> c \<notin> set ''+-0123456789'' \<longrightarrow> isl (ParseMonthDay s)) \<and>
   (\<forall>e. ParseMonthDay s = Inl e \<longrightarrow>
      (e = InvalidFormat s \<and> length (Split s (CHR ''-'')) \<noteq> 2) \<or>
      (\<exists>a b. Split s (CHR ''-'') = [a, b] \<and> e = InvalidMonth a \<and>
             (\<forall>k. Atoi a = Some k \<longrightarrow> k < 1 \<or> 12 < k)) \<or>
      (\<exists>a b. Split s (CHR ''-'') = [a, b] \<and> e = InvalidDay b \<and>
             (\<forall>k. Atoi b = Some k \<longrightarrow> k < 1 \<or> 31 < k))) \<and>
   (\<forall>quote e. take 9 (ParseError_message quote e) =
      (case e of InvalidFormat x \<Rightarrow> ''invalid f''
               | InvalidMonth x \<Rightarrow> ''invalid m''
               | InvalidDay x \<Rightarrow> ''invalid d'')) \<and>
   ParseMonthDay ''11-15'' = Inr (11, 15) \<and>
   ParseMonthDay ''02-30'' = Inr (2, 30) \<and>
   ParseMonthDay ''2024-11-15'' = Inl (InvalidFormat ''2024-11-15'') \<and>
   ParseMonthDay ''13-01'' = Inl (InvalidMonth ''13'') \<and>
   ParseMonthDay ''01-32'' = Inl (InvalidDay ''32'') \<and>
   ParseMonthDay ''1115'' = Inl (InvalidFormat ''1115'') \<and>
   ParseMonthDay ''00-10'' = Inl (InvalidMonth ''00'') \<and>
   ParseMonthDay ''01-00'' = Inl (InvalidDay ''00'') \<and>
   ParseMonthDay ''ab-01'' = Inl (InvalidMonth ''ab'') \<and>
   ParseMonthDay '':-1'' = Inl (InvalidMonth '':'') \<and>
   ParseMonthDay ''/1-01'' = Inl (InvalidMonth ''/1'') \<and>
   ParseMonthDay ''1_0-01'' = Inl (InvalidMonth ''1_0'') \<and>
   ParseMonthDay '' 1-01'' = Inl (InvalidMonth '' 1'') \<and>
   ParseMonthDay ''+-01'' = Inl (InvalidMonth ''+'') \<and>
   ParseMonthDay ''-01'' = Inl (InvalidMonth []) \<and>
   ParseMonthDay ''1-5 '' = Inl (InvalidDay ''5 '') \<and>
   ParseMonthDay ''01-0x1'' = Inl (InvalidDay ''0x1'') \<and>
   ParseMonthDay ''01-'' = Inl (InvalidDay [])"
proof (intro conjI)
  show "ParseMonthDay s = Inr (m, d) \<longleftrightarrow>
      (\<exists>a b. s = a @ CHR ''-'' # b \<and> CHR ''-'' \<notin> set a \<and> CHR ''-'' \<notin> set b \<and>
             Atoi a = Some m \<and> Atoi b = Some d \<and> 1 \<le> m \<and> m \<le> 12 \<and> 1 \<le> d \<and> d \<le> 31)"
    by (rule ParseMonthDay_Inr_iff)
next
  show "\<forall>a k. CHR ''-'' \<notin> set a \<longrightarrow>
      (Atoi a = Some k \<longleftrightarrow> numericSegment a k \<and> k < 2 ^ 63)"
    by (intro allI impI) (rule Atoi_segment)
next
  show "ParseMonthDay s = Inr (m, d) \<longleftrightarrow>
      (\<exists>a b. s = a @ CHR ''-'' # b \<and> numericSegment a m \<and> numericSegment b d \<and>
             1 \<le> m \<and> m \<le> 12 \<and> 1 \<le> d \<and> d \<le> 31)"
    by (rule ParseMonthDay_numeric_iff)
next
  show "\<forall>c. c \<in> set s \<and> c \<notin> set ''+-0123456789'' \<longrightarrow> isl (ParseMonthDay s)"
    using ParseMonthDay_foreign_char [of _ s] by blast
next
  show "\<forall>e. ParseMonthDay s = Inl e \<longrightarrow>
      (e = InvalidFormat s \<and> length (Split s (CHR ''-'')) \<noteq> 2) \<or>
      (\<exists>a b. Split s (CHR ''-'') = [a, b] \<and> e = InvalidMonth a \<and>
             (\<forall>k. Atoi a = Some k \<longrightarrow> k < 1 \<or> 12 < k)) \<or>
      (\<exists>a b. Split s (CHR ''-'') = [a, b] \<and> e = InvalidDay b \<and>
             (\<forall>k. Atoi b = Some k \<longrightarrow> k < 1 \<or> 31 < k))"
    by (intro allI impI) (rule ParseMonthDay_Inl_cases)
next
  show "\<forall>quote e. take 9 (ParseError_message quote e) =
      (case e of InvalidFormat x \<Rightarrow> ''invalid f''
               | InvalidMonth x \<Rightarrow> ''invalid m''
               | InvalidDay x \<Rightarrow> ''invalid d'')"
  proof (intro allI)
    fix quote e
    show "take 9 (ParseError_message quote e) =
      (case e of InvalidFormat x \<Rightarrow> ''invalid f''
               | InvalidMonth x \<Rightarrow> ''invalid m''
               | InvalidDay x \<Rightarrow> ''invalid d'')"
      by (cases e) simp_all
  qed
qed (code_simp+)

theorem ParseMonthDay_succeeds_iff_witness:
  "ParseMonthDay ''06-21'' = Inr (6, 21) \<and>
   (\<exists>a b. ''06-21'' = a @ CHR ''-'' # b \<and> CHR ''-'' \<notin> set a \<and> CHR ''-'' \<notin> set b \<and>
          Atoi a = Some 6 \<and> Atoi b = Some 21) \<and>
   (\<exists>a b. ''06-21'' = a @ CHR ''-'' # b \<and> numericSegment a 6 \<and> numericSegment b 21) \<and>
   numericSegment ''06'' 6 \<and> Atoi ''06'' = Some 6 \<and>
   \<not> numericSegment ''ab'' 6 \<and> Atoi ''ab'' = None \<and>
   CHR ''a'' \<in> set ''ab-01'' \<and> CHR ''a'' \<notin> set ''+-0123456789'' \<and>
   isl (ParseMonthDay ''ab-01'') \<and>
   ParseMonthDay ''00-10'' = Inl (InvalidMonth ''00'') \<and>
   Split ''00-10'' (CHR ''-'') = [''00'', ''10''] \<and> Atoi ''00'' = Some 0"
proof -
  have p: "ParseMonthDay ''06-21'' = Inr (6, 21)"
    by code_simp
  have e1: "\<exists>a b. ''06-21'' = a @ CHR ''-'' # b \<and> CHR ''-'' \<notin> set a \<and> CHR ''-'' \<notin> set b \<and>
          Atoi a = Some 6 \<and> Atoi b = Some 21"
    using p ParseMonthDay_succeeds_iff [of "''06-21''" 6 21] by blast
  have e2: "\<exists>a b. ''06-21'' = a @ CHR ''-'' # b \<and> numericSegment a 6 \<and> numericSegment b 21"
    using p ParseMonthDay_succeeds_iff [of "''06-21''" 6 21] by blast
  have n: "numericSegment ''06'' 6" "\<not> numericSegment ''ab'' 6"
    by code_simp+
  have h: "CHR ''-'' \<notin> set ''06''"
    by simp
  have a1: "Atoi ''06'' = Some 6"
    using ParseMonthDay_succeeds_iff [of "''06-21''" 6 21] h n(1) by simp
  have a2: "Atoi ''ab'' = None"
    by code_simp
  have c: "CHR ''a'' \<in> set ''ab-01''" "CHR ''a'' \<notin> set ''+-0123456789''"
    by simp_all
  have f: "isl (ParseMonthDay ''ab-01'')"
    using ParseMonthDay_succeeds_iff [of "''ab-01''"] c by blast
  have "ParseMonthDay ''00-10'' = Inl (InvalidMonth ''00'')"
    "Split ''00-10'' (CHR ''-'') = [''00'', ''10'']" "Atoi ''00'' = Some 0"
    by code_simp+
  with p e1 e2 n a1 a2 c f show ?thesis
    by (intro conjI)
qed

text \<open>
  C10. \<^verbatim>\<open>ParseMonthDay\<close> does not require two digits per segment: "1-5" gives (1, 5),
  "+5-10" (a leading plus sign) gives (5, 10), and "007-0031" (leading zeros) gives
  (7, 31). In general, around one hyphen, any two hyphen-free segments that \<^verbatim>\<open>Atoi\<close>
  reads as a month in 1..12 and a day in 1..31 are accepted: the segment count and the
  numeric bounds are the only checks.
\<close>

theorem ParseMonthDay_shape_not_enforced:
  "ParseMonthDay ''1-5'' = Inr (1, 5) \<and>
   ParseMonthDay ''+5-10'' = Inr (5, 10) \<and>
   ParseMonthDay ''007-0031'' = Inr (7, 31) \<and>
   (\<forall>a b m d. CHR ''-'' \<notin> set a \<and> CHR ''-'' \<notin> set b \<and> Atoi a = Some m \<and> Atoi b = Some d \<and>
       1 \<le> m \<and> m \<le> 12 \<and> 1 \<le> d \<and> d \<le> 31 \<longrightarrow>
       ParseMonthDay (a @ CHR ''-'' # b) = Inr (m, d))"
proof (intro conjI allI impI)
  fix a b m d
  assume h: "CHR ''-'' \<notin> set a \<and> CHR ''-'' \<notin> set b \<and> Atoi a = Some m \<and> Atoi b = Some d \<and>
       1 \<le> m \<and> m \<le> 12 \<and> 1 \<le> d \<and> d \<le> 31"
  then have "Split (a @ CHR ''-'' # b) (CHR ''-'') = [a, b]"
    by (simp add: Split_two)
  from ParseMonthDay_two [OF this] h show "ParseMonthDay (a @ CHR ''-'' # b) = Inr (m, d)"
    by simp
qed (code_simp+)

theorem ParseMonthDay_shape_not_enforced_witness:
  "Atoi ''+12'' = Some 12 \<and> Atoi ''3'' = Some 3 \<and> ParseMonthDay ''+12-3'' = Inr (12, 3)"
proof -
  have a: "Atoi ''+12'' = Some 12" and b: "Atoi ''3'' = Some 3"
    by code_simp+
  from ParseMonthDay_shape_not_enforced
  have g: "CHR ''-'' \<notin> set x \<and> CHR ''-'' \<notin> set y \<and> Atoi x = Some m \<and> Atoi y = Some d \<and>
       1 \<le> m \<and> m \<le> 12 \<and> 1 \<le> d \<and> d \<le> 31 \<longrightarrow>
       ParseMonthDay (x @ CHR ''-'' # y) = Inr (m, d)" for x y m d
    by blast
  from g [of "''+12''" "''3''" 12 3] a b have "ParseMonthDay ''+12-3'' = Inr (12, 3)"
    by simp
  then show ?thesis
    using a b by simp
qed

section \<open>Construction\<close>

lemma entryParses_obtain:
  assumes "entryParses e"
  obtains sm sd em ed w where "ParseMonthDay (Start e) = Inr (sm, sd)"
    and "ParseMonthDay (End e) = Inr (em, ed)" and "isYearWrap sm sd em ed = Some w"
proof -
  from assms obtain sm sd em ed where
    ps: "ParseMonthDay (Start e) = Inr (sm, sd)" and pe: "ParseMonthDay (End e) = Inr (em, ed)"
    by (cases "ParseMonthDay (Start e)"; cases "ParseMonthDay (End e)")
       (auto simp: entryParses_def)
  from ParseMonthDay_bounds [OF ps] ParseMonthDay_bounds [OF pe]
  obtain w where "isYearWrap sm sd em ed = Some w"
    using isYearWrap_valid [of sm em sd ed] by auto
  with ps pe show thesis
    by (rule that)
qed

lemma New_loop_ok:
  assumes "list_all entryParses es"
  shows "\<exists>rs. New_loop s es = Some (Inr (s\<lparr>ranges := ranges s @ rs\<rparr>)) \<and>
           map name rs = map Name es \<and> map album rs = map Album es \<and>
           map (\<lambda>r. Inr (startMonth r, startDay r)) rs = map (\<lambda>e. ParseMonthDay (Start e)) es \<and>
           map (\<lambda>r. Inr (endMonth r, endDay r)) rs = map (\<lambda>e. ParseMonthDay (End e)) es"
  using assms
proof (induction es arbitrary: s)
  case Nil
  then show ?case by simp
next
  case (Cons e es)
  then have "entryParses e" and rest: "list_all entryParses es"
    by simp_all
  then obtain sm sd em ed w where
    ps: "ParseMonthDay (Start e) = Inr (sm, sd)" and
    pe: "ParseMonthDay (End e) = Inr (em, ed)" and
    w: "isYearWrap sm sd em ed = Some w"
    by (auto elim: entryParses_obtain)
  let ?r = "\<lparr>name = Name e, album = Album e, startMonth = sm, startDay = sd,
             endMonth = em, endDay = ed, wrapsYear = w\<rparr>"
  let ?s = "s\<lparr>ranges := ranges s @ [?r]\<rparr>"
  from Cons.IH [OF rest, of ?s] obtain rs where
    n: "New_loop ?s es = Some (Inr (?s\<lparr>ranges := ranges ?s @ rs\<rparr>))" and
    m: "map name rs = map Name es" "map album rs = map Album es"
       "map (\<lambda>r. Inr (startMonth r, startDay r)) rs = map (\<lambda>e. ParseMonthDay (Start e)) es"
       "map (\<lambda>r. Inr (endMonth r, endDay r)) rs = map (\<lambda>e. ParseMonthDay (End e)) es"
    by blast
  have "New_loop s (e # es) = Some (Inr (s\<lparr>ranges := ranges s @ (?r # rs)\<rparr>))"
    using ps pe w n by simp
  moreover have "map name (?r # rs) = map Name (e # es)" "map album (?r # rs) = map Album (e # es)"
    "map (\<lambda>r. Inr (startMonth r, startDay r)) (?r # rs) = map (\<lambda>e. ParseMonthDay (Start e)) (e # es)"
    "map (\<lambda>r. Inr (endMonth r, endDay r)) (?r # rs) = map (\<lambda>e. ParseMonthDay (End e)) (e # es)"
    using m ps pe by simp_all
  ultimately show ?case
    by blast
qed

lemma New_loop_skip:
  assumes "list_all entryParses pre"
  shows "\<exists>s'. New_loop s (pre @ es) = New_loop s' es"
  using assms
proof (induction pre arbitrary: s)
  case Nil
  then show ?case by auto
next
  case (Cons e pre)
  then have "entryParses e" and rest: "list_all entryParses pre"
    by simp_all
  then obtain sm sd em ed w where
    ps: "ParseMonthDay (Start e) = Inr (sm, sd)" and
    pe: "ParseMonthDay (End e) = Inr (em, ed)" and
    w: "isYearWrap sm sd em ed = Some w"
    by (auto elim: entryParses_obtain)
  show ?case
    using ps pe w Cons.IH [OF rest] by simp
qed

lemma New_loop_start_fails:
  assumes "list_all entryParses pre" and "ParseMonthDay (Start e) = Inl pe"
  shows "New_loop s (pre @ e # post) = Some (Inl (InvalidStartDate (Name e) pe))"
proof -
  obtain s' where "New_loop s (pre @ e # post) = New_loop s' (e # post)"
    using New_loop_skip [OF assms(1)] by blast
  then show ?thesis
    using assms(2) by simp
qed

lemma New_loop_end_fails:
  assumes "list_all entryParses pre" and "\<not> isl (ParseMonthDay (Start e))"
    and "ParseMonthDay (End e) = Inl pe"
  shows "New_loop s (pre @ e # post) = Some (Inl (InvalidEndDate (Name e) pe))"
proof -
  obtain s' where "New_loop s (pre @ e # post) = New_loop s' (e # post)"
    using New_loop_skip [OF assms(1)] by blast
  moreover obtain x y where "ParseMonthDay (Start e) = Inr (x, y)"
    using assms(2) by (cases "ParseMonthDay (Start e)") auto
  ultimately show ?thesis
    using assms(3) by simp
qed

lemma first_failing_entry:
  assumes "\<not> list_all entryParses es"
  shows "\<exists>pre e post. es = pre @ e # post \<and> list_all entryParses pre \<and> \<not> entryParses e"
proof -
  from assms have "\<exists>x \<in> set es. \<not> entryParses x"
    by (simp add: list_all_iff)
  then obtain pre e post where "es = pre @ e # post" and "\<not> entryParses e"
    and "\<forall>y \<in> set pre. \<not> \<not> entryParses y"
    using split_list_first_prop [of es "\<lambda>x. \<not> entryParses x"] by blast
  then show ?thesis
    by (auto simp: list_all_iff)
qed

text \<open>
  C6. \<^verbatim>\<open>New\<close> never panics and is all-or-nothing. When both boundaries of every entry
  parse, it returns a scheduler with the configured default album whose ranges carry,
  position by position and in the input order, the names, the albums and the parsed
  boundaries of the entries. Otherwise it returns an error and no scheduler: for the
  first entry with a boundary that does not parse, the error names that entry and the
  boundary (start, or end when the start parsed) and wraps the parse error; its message
  is "invalid start date for" or "invalid end date for", the quoted name, a colon and
  the parse error's message.
\<close>

theorem New_all_or_nothing:
  "(list_all entryParses (Schedule cfg) \<longrightarrow>
      (\<exists>s. New cfg = Some (Inr s) \<and> defaultAlbum s = DefaultAlbum cfg \<and>
           map name (ranges s) = map Name (Schedule cfg) \<and>
           map album (ranges s) = map Album (Schedule cfg) \<and>
           map (\<lambda>r. Inr (startMonth r, startDay r)) (ranges s) =
             map (\<lambda>e. ParseMonthDay (Start e)) (Schedule cfg) \<and>
           map (\<lambda>r. Inr (endMonth r, endDay r)) (ranges s) =
             map (\<lambda>e. ParseMonthDay (End e)) (Schedule cfg))) \<and>
   (\<not> list_all entryParses (Schedule cfg) \<longrightarrow>
      (\<exists>pre e post err.
         Schedule cfg = pre @ e # post \<and> list_all entryParses pre \<and> \<not> entryParses e \<and>
         New cfg = Some (Inl err) \<and>
         ((\<exists>pe. ParseMonthDay (Start e) = Inl pe \<and> err = InvalidStartDate (Name e) pe \<and>
               (\<forall>quote. NewError_message quote err =
                  ''invalid start date for '' @ quote (Name e) @ '': '' @
                  ParseError_message quote pe)) \<or>
          (\<exists>pe. \<not> isl (ParseMonthDay (Start e)) \<and> ParseMonthDay (End e) = Inl pe \<and>
               err = InvalidEndDate (Name e) pe \<and>
               (\<forall>quote. NewError_message quote err =
                  ''invalid end date for '' @ quote (Name e) @ '': '' @
                  ParseError_message quote pe)))))"
proof (intro conjI impI)
  let ?s0 = "\<lparr>defaultAlbum = DefaultAlbum cfg, ranges = []\<rparr>"
  assume "list_all entryParses (Schedule cfg)"
  from New_loop_ok [OF this, of ?s0] obtain rs where
    n: "New_loop ?s0 (Schedule cfg) = Some (Inr (?s0\<lparr>ranges := ranges ?s0 @ rs\<rparr>))" and
    m: "map name rs = map Name (Schedule cfg)" "map album rs = map Album (Schedule cfg)"
       "map (\<lambda>r. Inr (startMonth r, startDay r)) rs =
          map (\<lambda>e. ParseMonthDay (Start e)) (Schedule cfg)"
       "map (\<lambda>r. Inr (endMonth r, endDay r)) rs =
          map (\<lambda>e. ParseMonthDay (End e)) (Schedule cfg)"
    by blast
  have "New cfg = Some (Inr \<lparr>defaultAlbum = DefaultAlbum cfg, ranges = rs\<rparr>)"
    using n by (simp add: New_def)
  with m show "\<exists>s. New cfg = Some (Inr s) \<and> defaultAlbum s = DefaultAlbum cfg \<and>
           map name (ranges s) = map Name (Schedule cfg) \<and>
           map album (ranges s) = map Album (Schedule cfg) \<and>
           map (\<lambda>r. Inr (startMonth r, startDay r)) (ranges s) =
             map (\<lambda>e. ParseMonthDay (Start e)) (Schedule cfg) \<and>
           map (\<lambda>r. Inr (endMonth r, endDay r)) (ranges s) =
             map (\<lambda>e. ParseMonthDay (End e)) (Schedule cfg)"
    by simp
next
  let ?s0 = "\<lparr>defaultAlbum = DefaultAlbum cfg, ranges = []\<rparr>"
  assume "\<not> list_all entryParses (Schedule cfg)"
  from first_failing_entry [OF this] obtain pre e post where
    sp: "Schedule cfg = pre @ e # post" and pre: "list_all entryParses pre"
    and bad: "\<not> entryParses e"
    by blast
  show "\<exists>pre e post err.
         Schedule cfg = pre @ e # post \<and> list_all entryParses pre \<and> \<not> entryParses e \<and>
         New cfg = Some (Inl err) \<and>
         ((\<exists>pe. ParseMonthDay (Start e) = Inl pe \<and> err = InvalidStartDate (Name e) pe \<and>
               (\<forall>quote. NewError_message quote err =
                  ''invalid start date for '' @ quote (Name e) @ '': '' @
                  ParseError_message quote pe)) \<or>
          (\<exists>pe. \<not> isl (ParseMonthDay (Start e)) \<and> ParseMonthDay (End e) = Inl pe \<and>
               err = InvalidEndDate (Name e) pe \<and>
               (\<forall>quote. NewError_message quote err =
                  ''invalid end date for '' @ quote (Name e) @ '': '' @
                  ParseError_message quote pe)))"
  proof (cases "ParseMonthDay (Start e)")
    case (Inl pe)
    have "New cfg = Some (Inl (InvalidStartDate (Name e) pe))"
      using New_loop_start_fails [OF pre Inl, of ?s0 post] sp by (simp add: New_def)
    with sp pre bad Inl show ?thesis
      by (intro exI [of _ pre] exI [of _ e] exI [of _ post]
          exI [of _ "InvalidStartDate (Name e) pe"]) simp
  next
    case (Inr x)
    then have ns: "\<not> isl (ParseMonthDay (Start e))"
      by simp
    with bad obtain pe where pe: "ParseMonthDay (End e) = Inl pe"
      by (cases "ParseMonthDay (End e)") (auto simp: entryParses_def)
    have "New cfg = Some (Inl (InvalidEndDate (Name e) pe))"
      using New_loop_end_fails [OF pre ns pe, of ?s0 post] sp by (simp add: New_def)
    with sp pre bad ns pe show ?thesis
      by (intro exI [of _ pre] exI [of _ e] exI [of _ post]
          exI [of _ "InvalidEndDate (Name e) pe"]) simp
  qed
qed

theorem New_all_or_nothing_witness:
  "\<not> list_all entryParses (Schedule cfg_BadEnd) \<and>
   New cfg_BadEnd = Some (Inl (InvalidEndDate ''broken'' (InvalidDay ''32''))) \<and>
   list_all entryParses (Schedule cfg_FirstMatchWins) \<and>
   (\<exists>s. New cfg_FirstMatchWins = Some (Inr s) \<and>
        map name (ranges s) = [''special'', ''christmas''] \<and>
        map album (ranges s) = [''special-album'', ''christmas-album''])"
proof -
  have bad: "\<not> list_all entryParses (Schedule cfg_BadEnd)"
    by code_simp
  have good: "list_all entryParses (Schedule cfg_FirstMatchWins)"
    by code_simp
  have "\<exists>err. New cfg_BadEnd = Some (Inl err)"
    using New_all_or_nothing [of cfg_BadEnd] bad by blast
  moreover have "New cfg_BadEnd = Some (Inl (InvalidEndDate ''broken'' (InvalidDay ''32'')))"
    by code_simp
  moreover have "\<exists>s. New cfg_FirstMatchWins = Some (Inr s) \<and>
        map name (ranges s) = map Name (Schedule cfg_FirstMatchWins) \<and>
        map album (ranges s) = map Album (Schedule cfg_FirstMatchWins)"
    using New_all_or_nothing [of cfg_FirstMatchWins] good by blast
  ultimately show ?thesis
    using bad good by (simp add: cfg_FirstMatchWins_def testConfig_def)
qed

section \<open>First match wins\<close>

text \<open>
  C2. For every scheduler that \<^verbatim>\<open>New\<close> returned and every date with month in 1..12 and
  day in 1..31: when the range at position \<open>i\<close> matches the date and no range before it
  does, \<^verbatim>\<open>GetAlbumForDate\<close> returns that range's album and
  \<^verbatim>\<open>GetScheduleNameForDate\<close> its name, whatever the later ranges are and whether or not
  they match. With the entries special 12-20..12-26 and christmas 11-15..01-01, in this
  order and with any albums and default, December 25 matches both ranges and resolves
  to the name "special" and the first album; November 20 resolves to "christmas" and the
  second album.
\<close>

theorem first_match_wins:
  "(\<forall>cfg s t i.
      New cfg = Some (Inr s) \<and> validTime t \<and> i < length (ranges s) \<and>
      matchesDate t (ranges s ! i) \<and> (\<forall>j < i. \<not> matchesDate t (ranges s ! j)) \<longrightarrow>
      GetAlbumForDate s t = Some (album (ranges s ! i)) \<and>
      GetScheduleNameForDate s t = Some (name (ranges s ! i))) \<and>
   (\<forall>d a1 a2. \<exists>s.
      New (testConfig d
        [\<lparr>Name = ''special'', Album = a1, Start = ''12-20'', End = ''12-26''\<rparr>,
         \<lparr>Name = ''christmas'', Album = a2, Start = ''11-15'', End = ''01-01''\<rparr>]) = Some (Inr s) \<and>
      length (ranges s) = 2 \<and>
      matchesDate \<lparr>Month = 12, Day = 25\<rparr> (ranges s ! 0) \<and>
      matchesDate \<lparr>Month = 12, Day = 25\<rparr> (ranges s ! 1) \<and>
      GetScheduleNameForDate s \<lparr>Month = 12, Day = 25\<rparr> = Some ''special'' \<and>
      GetAlbumForDate s \<lparr>Month = 12, Day = 25\<rparr> = Some a1 \<and>
      GetScheduleNameForDate s \<lparr>Month = 11, Day = 20\<rparr> = Some ''christmas'' \<and>
      GetAlbumForDate s \<lparr>Month = 11, Day = 20\<rparr> = Some a2)"
proof (intro conjI allI impI)
  fix cfg s t i
  assume a: "New cfg = Some (Inr s) \<and> validTime t \<and> i < length (ranges s) \<and>
      matchesDate t (ranges s ! i) \<and> (\<forall>j < i. \<not> matchesDate t (ranges s ! j))"
  then have inv: "list_all compiledRange (ranges s)"
    using New_compiled(1) by blast
  from a obtain cur where cur: "monthDayToDOY (Month t) (Day t) = Some cur"
    using validTime_ordinal by blast
  have i: "i < length (ranges s)"
    using a by simp
  have hit: "dateInRange cur (ranges s ! i) = Some True"
    using a cur by (simp add: matchesDate_def)
  have miss: "\<forall>j < i. dateInRange cur (ranges s ! j) \<noteq> Some True"
    using a cur by (simp add: matchesDate_def)
  show "GetAlbumForDate s t = Some (album (ranges s ! i))"
    using GetAlbumForDate_loop_first [OF inv i hit miss] cur by (simp add: GetAlbumForDate_def)
  show "GetScheduleNameForDate s t = Some (name (ranges s ! i))"
    using GetScheduleNameForDate_loop_first [OF inv i hit miss] cur
    by (simp add: GetScheduleNameForDate_def)
next
  fix d a1 a2 :: string
  have p: "ParseMonthDay ''12-20'' = Inr (12, 20)" "ParseMonthDay ''12-26'' = Inr (12, 26)"
    "ParseMonthDay ''11-15'' = Inr (11, 15)" "ParseMonthDay ''01-01'' = Inr (1, 1)"
    by code_simp+
  have w: "isYearWrap 12 20 12 26 = Some False" "isYearWrap 11 15 1 1 = Some True"
    by code_simp+
  have o: "monthDayToDOY 12 20 = Some 355" "monthDayToDOY 12 26 = Some 361"
    "monthDayToDOY 11 15 = Some 320" "monthDayToDOY 1 1 = Some 1"
    "monthDayToDOY 12 25 = Some 360" "monthDayToDOY 11 20 = Some 325"
    by code_simp+
  let ?s = "\<lparr>defaultAlbum = d, ranges =
       [\<lparr>name = ''special'', album = a1, startMonth = 12, startDay = 20,
         endMonth = 12, endDay = 26, wrapsYear = False\<rparr>,
        \<lparr>name = ''christmas'', album = a2, startMonth = 11, startDay = 15,
         endMonth = 1, endDay = 1, wrapsYear = True\<rparr>]\<rparr>"
  have n: "New (testConfig d
        [\<lparr>Name = ''special'', Album = a1, Start = ''12-20'', End = ''12-26''\<rparr>,
         \<lparr>Name = ''christmas'', Album = a2, Start = ''11-15'', End = ''01-01''\<rparr>]) = Some (Inr ?s)"
    by (simp add: New_def testConfig_def p w)
  have "length (ranges ?s) = 2 \<and>
      matchesDate \<lparr>Month = 12, Day = 25\<rparr> (ranges ?s ! 0) \<and>
      matchesDate \<lparr>Month = 12, Day = 25\<rparr> (ranges ?s ! 1) \<and>
      GetScheduleNameForDate ?s \<lparr>Month = 12, Day = 25\<rparr> = Some ''special'' \<and>
      GetAlbumForDate ?s \<lparr>Month = 12, Day = 25\<rparr> = Some a1 \<and>
      GetScheduleNameForDate ?s \<lparr>Month = 11, Day = 20\<rparr> = Some ''christmas'' \<and>
      GetAlbumForDate ?s \<lparr>Month = 11, Day = 20\<rparr> = Some a2"
    by (simp add: matchesDate_def GetScheduleNameForDate_def GetAlbumForDate_def
        dateInRange_def o)
  with n show "\<exists>s. New (testConfig d
        [\<lparr>Name = ''special'', Album = a1, Start = ''12-20'', End = ''12-26''\<rparr>,
         \<lparr>Name = ''christmas'', Album = a2, Start = ''11-15'', End = ''01-01''\<rparr>]) = Some (Inr s) \<and>
      length (ranges s) = 2 \<and>
      matchesDate \<lparr>Month = 12, Day = 25\<rparr> (ranges s ! 0) \<and>
      matchesDate \<lparr>Month = 12, Day = 25\<rparr> (ranges s ! 1) \<and>
      GetScheduleNameForDate s \<lparr>Month = 12, Day = 25\<rparr> = Some ''special'' \<and>
      GetAlbumForDate s \<lparr>Month = 12, Day = 25\<rparr> = Some a1 \<and>
      GetScheduleNameForDate s \<lparr>Month = 11, Day = 20\<rparr> = Some ''christmas'' \<and>
      GetAlbumForDate s \<lparr>Month = 11, Day = 20\<rparr> = Some a2"
    by blast
qed

theorem first_match_wins_witness:
  "New cfg_FirstMatchWins = Some (Inr \<lparr>defaultAlbum = ''default-album'', ranges =
       [\<lparr>name = ''special'', album = ''special-album'', startMonth = 12, startDay = 20,
         endMonth = 12, endDay = 26, wrapsYear = False\<rparr>,
        \<lparr>name = ''christmas'', album = ''christmas-album'', startMonth = 11, startDay = 15,
         endMonth = 1, endDay = 1, wrapsYear = True\<rparr>]\<rparr>) \<and>
   validTime \<lparr>Month = 11, Day = 20\<rparr> \<and>
   GetAlbumForDate \<lparr>defaultAlbum = ''default-album'', ranges =
       [\<lparr>name = ''special'', album = ''special-album'', startMonth = 12, startDay = 20,
         endMonth = 12, endDay = 26, wrapsYear = False\<rparr>,
        \<lparr>name = ''christmas'', album = ''christmas-album'', startMonth = 11, startDay = 15,
         endMonth = 1, endDay = 1, wrapsYear = True\<rparr>]\<rparr> \<lparr>Month = 11, Day = 20\<rparr>
     = Some ''christmas-album'' \<and>
   GetScheduleNameForDate \<lparr>defaultAlbum = ''default-album'', ranges =
       [\<lparr>name = ''special'', album = ''special-album'', startMonth = 12, startDay = 20,
         endMonth = 12, endDay = 26, wrapsYear = False\<rparr>,
        \<lparr>name = ''christmas'', album = ''christmas-album'', startMonth = 11, startDay = 15,
         endMonth = 1, endDay = 1, wrapsYear = True\<rparr>]\<rparr> \<lparr>Month = 11, Day = 20\<rparr>
     = Some ''christmas''"
proof -
  let ?s = "\<lparr>defaultAlbum = ''default-album'', ranges =
       [\<lparr>name = ''special'', album = ''special-album'', startMonth = 12, startDay = 20,
         endMonth = 12, endDay = 26, wrapsYear = False\<rparr>,
        \<lparr>name = ''christmas'', album = ''christmas-album'', startMonth = 11, startDay = 15,
         endMonth = 1, endDay = 1, wrapsYear = True\<rparr>]\<rparr>"
  let ?t = "\<lparr>Month = 11, Day = 20\<rparr>"
  have n: "New cfg_FirstMatchWins = Some (Inr ?s)"
    by code_simp
  have v: "validTime ?t"
    by (simp add: validTime_def)
  have i: "(1::nat) < length (ranges ?s)"
    by simp
  have hit: "matchesDate ?t (ranges ?s ! 1)"
    by code_simp
  have m0: "\<not> matchesDate ?t (ranges ?s ! 0)"
    by code_simp
  have miss: "\<forall>j < (1::nat). \<not> matchesDate ?t (ranges ?s ! j)"
    using m0 by simp
  have "GetAlbumForDate ?s ?t = Some (album (ranges ?s ! 1)) \<and>
        GetScheduleNameForDate ?s ?t = Some (name (ranges ?s ! 1))"
    using first_match_wins n v i hit miss by blast
  then show ?thesis
    using n v by simp
qed

section \<open>Ranges of a single day\<close>

text \<open>
  C8. For every range of a scheduler that \<^verbatim>\<open>New\<close> returned whose start and end have
  the same ordinal: the \<^verbatim>\<open>wrapsYear\<close> flag is false, \<^verbatim>\<open>dateInRange\<close> holds of a
  day-of-year exactly when it is that ordinal, and the range matches a date (month in
  1..12, day in 1..31) exactly when the date's ordinal is that ordinal.
\<close>

theorem single_day_range:
  assumes "New cfg = Some (Inr s)" and "r \<in> set (ranges s)"
    and "monthDayToDOY (startMonth r) (startDay r) = monthDayToDOY (endMonth r) (endDay r)"
  shows "\<not> wrapsYear r \<and>
         (\<exists>d. monthDayToDOY (startMonth r) (startDay r) = Some d \<and>
              (\<forall>currentDOY. dateInRange currentDOY r = Some (currentDOY = d)) \<and>
              (\<forall>t. validTime t \<longrightarrow>
                 (matchesDate t r \<longleftrightarrow> monthDayToDOY (Month t) (Day t) = Some d)))"
proof -
  have "compiledRange r"
    using New_compiled(1) [OF assms(1)] assms(2) by (simp add: list_all_iff)
  from compiledRange_dateInRange [OF this] obtain a b where
    a: "monthDayToDOY (startMonth r) (startDay r) = Some a" and
    b: "monthDayToDOY (endMonth r) (endDay r) = Some b" and
    w: "wrapsYear r \<longleftrightarrow> b < a" and
    m: "\<forall>currentDOY. dateInRange currentDOY r =
          Some (if wrapsYear r
                then currentDOY \<ge> a \<or> currentDOY \<le> b
                else currentDOY \<ge> a \<and> currentDOY \<le> b)"
    by blast
  from a b assms(3) have ab: "b = a"
    by simp
  with w have nw: "\<not> wrapsYear r"
    by simp
  have din: "\<forall>currentDOY. dateInRange currentDOY r = Some (currentDOY = a)"
    using m nw ab by auto
  have "\<forall>t. validTime t \<longrightarrow> (matchesDate t r \<longleftrightarrow> monthDayToDOY (Month t) (Day t) = Some a)"
  proof (intro allI impI)
    fix t
    assume "validTime t"
    then obtain cur where "monthDayToDOY (Month t) (Day t) = Some cur"
      using validTime_ordinal by blast
    then show "matchesDate t r \<longleftrightarrow> monthDayToDOY (Month t) (Day t) = Some a"
      using din by (simp add: matchesDate_def)
  qed
  with nw a din show ?thesis
    by blast
qed

theorem single_day_range_witness:
  "New cfg_SingleDay = Some (Inr \<lparr>defaultAlbum = ''default-album'', ranges =
       [\<lparr>name = ''birthday'', album = ''birthday-album'', startMonth = 7, startDay = 4,
         endMonth = 7, endDay = 4, wrapsYear = False\<rparr>]\<rparr>) \<and>
   monthDayToDOY 7 4 = Some 186 \<and>
   dateInRange 185 \<lparr>name = ''birthday'', album = ''birthday-album'', startMonth = 7,
       startDay = 4, endMonth = 7, endDay = 4, wrapsYear = False\<rparr> = Some False \<and>
   dateInRange 186 \<lparr>name = ''birthday'', album = ''birthday-album'', startMonth = 7,
       startDay = 4, endMonth = 7, endDay = 4, wrapsYear = False\<rparr> = Some True \<and>
   dateInRange 187 \<lparr>name = ''birthday'', album = ''birthday-album'', startMonth = 7,
       startDay = 4, endMonth = 7, endDay = 4, wrapsYear = False\<rparr> = Some False"
proof -
  let ?r = "\<lparr>name = ''birthday'', album = ''birthday-album'', startMonth = 7,
       startDay = 4, endMonth = 7, endDay = 4, wrapsYear = False\<rparr>"
  let ?s = "\<lparr>defaultAlbum = ''default-album'', ranges = [?r]\<rparr>"
  have n: "New cfg_SingleDay = Some (Inr ?s)"
    by code_simp
  have r: "?r \<in> set (ranges ?s)"
    by simp
  have e: "monthDayToDOY (startMonth ?r) (startDay ?r) = monthDayToDOY (endMonth ?r) (endDay ?r)"
    by simp
  have o: "monthDayToDOY 7 4 = Some 186"
    by code_simp
  from single_day_range [OF n r e] o
  have "\<forall>currentDOY. dateInRange currentDOY ?r = Some (currentDOY = 186)"
    by simp
  then show ?thesis
    using n o by simp
qed

section \<open>Recomputed ordinals against the compile-once model\<close>

lemma spec_ToOrdinal_eq:
  assumes "1 \<le> month" and "month \<le> 13"
  shows "monthDayToDOY month day = Some (spec_ToOrdinal month day)"
  using monthDayToDOY_valid [OF assms] by (simp add: spec_ToOrdinal_def daysInMonth_def)

text \<open>
  C9. For every range of a scheduler that \<^verbatim>\<open>New\<close> returned and every day-of-year,
  \<^verbatim>\<open>dateInRange\<close>, which recomputes both ordinals from the stored months and days at
  each call, returns the answer of the specification's membership test on the compiled
  range whose two ordinals and wrap flag are computed once from the same boundaries;
  the stored \<^verbatim>\<open>wrapsYear\<close> flag is the compiled range's flag.
\<close>

theorem dateInRange_refines_compiled:
  assumes "New cfg = Some (Inr s)" and "r \<in> set (ranges s)"
  shows "dateInRange currentDOY r =
           Some (spec_matches currentDOY
                  (spec_compile (name r) (album r) (startMonth r, startDay r)
                     (endMonth r, endDay r))) \<and>
         wrapsYear r =
           spec_wrapsYear (spec_compile (name r) (album r) (startMonth r, startDay r)
                     (endMonth r, endDay r))"
proof -
  have c: "compiledRange r"
    using New_compiled(1) [OF assms(1)] assms(2) by (simp add: list_all_iff)
  then have a: "monthDayToDOY (startMonth r) (startDay r) =
                  Some (spec_ToOrdinal (startMonth r) (startDay r))"
    and b: "monthDayToDOY (endMonth r) (endDay r) =
                  Some (spec_ToOrdinal (endMonth r) (endDay r))"
    by (simp_all add: compiledRange_def spec_ToOrdinal_eq)
  from c have "isYearWrap (startMonth r) (startDay r) (endMonth r) (endDay r) = Some (wrapsYear r)"
    by (simp add: compiledRange_def)
  with a b have w: "wrapsYear r \<longleftrightarrow>
      spec_ToOrdinal (endMonth r) (endDay r) < spec_ToOrdinal (startMonth r) (startDay r)"
    by (auto simp: isYearWrap_def)
  show ?thesis
    using a b w by (simp add: dateInRange_def spec_matches_def spec_compile_def)
qed

theorem dateInRange_refines_compiled_witness:
  "New cfg_YearWrap = Some (Inr \<lparr>defaultAlbum = ''default-album'', ranges =
       [\<lparr>name = ''christmas'', album = ''christmas-album'', startMonth = 11, startDay = 15,
         endMonth = 1, endDay = 1, wrapsYear = True\<rparr>]\<rparr>) \<and>
   spec_compile ''christmas'' ''christmas-album'' (11, 15) (1, 1) =
     \<lparr>spec_name = ''christmas'', spec_value = ''christmas-album'', spec_startDOY = 320,
      spec_endDOY = 1, spec_wrapsYear = True\<rparr> \<and>
   dateInRange 360 \<lparr>name = ''christmas'', album = ''christmas-album'', startMonth = 11,
       startDay = 15, endMonth = 1, endDay = 1, wrapsYear = True\<rparr> =
     Some (spec_matches 360 \<lparr>spec_name = ''christmas'', spec_value = ''christmas-album'',
       spec_startDOY = 320, spec_endDOY = 1, spec_wrapsYear = True\<rparr>) \<and>
   spec_matches 360 \<lparr>spec_name = ''christmas'', spec_value = ''christmas-album'',
       spec_startDOY = 320, spec_endDOY = 1, spec_wrapsYear = True\<rparr>"
proof -
  let ?r = "\<lparr>name = ''christmas'', album = ''christmas-album'', startMonth = 11,
       startDay = 15, endMonth = 1, endDay = 1, wrapsYear = True\<rparr>"
  let ?s = "\<lparr>defaultAlbum = ''default-album'', ranges = [?r]\<rparr>"
  have n: "New cfg_YearWrap = Some (Inr ?s)"
    by code_simp
  have r: "?r \<in> set (ranges ?s)"
    by simp
  have c: "spec_compile ''christmas'' ''christmas-album'' (11, 15) (1, 1) =
     \<lparr>spec_name = ''christmas'', spec_value = ''christmas-album'', spec_startDOY = 320,
      spec_endDOY = 1, spec_wrapsYear = True\<rparr>"
    by (simp add: spec_compile_def spec_ToOrdinal_def)
  have m: "spec_matches 360 \<lparr>spec_name = ''christmas'', spec_value = ''christmas-album'',
       spec_startDOY = 320, spec_endDOY = 1, spec_wrapsYear = True\<rparr>"
    by (simp add: spec_matches_def)
  from dateInRange_refines_compiled [OF n r, of 360] c
  have "dateInRange 360 ?r =
     Some (spec_matches 360 \<lparr>spec_name = ''christmas'', spec_value = ''christmas-album'',
       spec_startDOY = 320, spec_endDOY = 1, spec_wrapsYear = True\<rparr>)"
    by simp
  then show ?thesis
    using n c m by simp
qed

end
